theory Spec2Isabelle
  imports Complex_Main
begin

section \<open>Labelled arrays: the data model of the notebook\<close>

text \<open>
  The notebook \<^verbatim>\<open>notebooks/gmet_ensemble.ipynb\<close> is a sequence of calls on labelled
  arrays. A coordinate label is a floating-point number (latitude, longitude, ensemble
  member), a calendar day (time) or a string (season). An array value is a float; the
  missing value NaN is \<open>None\<close>, every other float is read as the real number it
  denotes (infinities and rounding are left out).

  The notebook defines no function of its own: every statement calls the labelled-array
  library (selection, reduction, arithmetic with alignment, resampling, grouping). Each
  operation below is the behaviour of the library call it is named after, for the kinds
  of argument the notebook passes; an exception of the call is an \<open>Inl\<close> result.
\<close>

datatype label = Num real | Date int int int | Str string

datatype error =
  KeyError | ValueError | IndexError | TypeError | InvalidIndexError | NameError | AttributeError
  | OutOfBoundsDatetime

type_synonym fval = "real option"

record 'v DataArray =
  axes :: "(string \<times> label list) list"
  vals :: "nat list \<Rightarrow> 'v"
  attrs :: "(string \<times> string) list"

record Variable =
  vdims :: "string list"
  vdata :: "nat list \<Rightarrow> fval"
  vattrs :: "(string \<times> string) list"

text \<open>
  A dataset holds one coordinate list per dimension, shared by all its variables, and
  the variables by name.
\<close>

record Dataset =
  coords :: "(string \<times> label list) list"
  data_vars :: "(string \<times> Variable) list"

definition bindE :: "error + 'a \<Rightarrow> ('a \<Rightarrow> error + 'b) \<Rightarrow> error + 'b" where
  "bindE m f = (case m of Inl e \<Rightarrow> Inl e | Inr x \<Rightarrow> f x)"

definition dims :: "'v DataArray \<Rightarrow> string list" where
  "dims a = map fst (axes a)"

definition shape :: "'v DataArray \<Rightarrow> nat list" where
  "shape a = map (\<lambda>ax. length (snd ax)) (axes a)"

text \<open>An index tuple addresses a cell of an array when it has one in-range position per axis.\<close>

definition in_bounds :: "(string \<times> label list) list \<Rightarrow> nat list \<Rightarrow> bool" where
  "in_bounds ax idx = list_all2 (\<lambda>i a. i < length (snd a)) idx ax"

fun index_of :: "'a \<Rightarrow> 'a list \<Rightarrow> nat option" where
  "index_of x [] = None"
| "index_of x (y # ys) = (if x = y then Some 0 else map_option Suc (index_of x ys))"

definition insert_at :: "nat \<Rightarrow> 'a \<Rightarrow> 'a list \<Rightarrow> 'a list" where
  "insert_at k x xs = take k xs @ x # drop k xs"

definition remove_at :: "nat \<Rightarrow> 'a list \<Rightarrow> 'a list" where
  "remove_at k xs = take k xs @ drop (Suc k) xs"

definition labels_of :: "Dataset \<Rightarrow> string \<Rightarrow> label list" where
  "labels_of ds d = (case map_of (coords ds) d of None \<Rightarrow> [] | Some ls \<Rightarrow> ls)"

text \<open>
  \<^verbatim>\<open>ds[name]\<close> for the name of a data variable, as the notebook uses it (\<open>elevation\<close>,
  \<open>t_mean\<close>, \<open>pcp\<close>): the variable with the dataset's coordinates attached;
  KeyError when the dataset has no such variable. Indexing by the name of a coordinate,
  which the library also allows, is not part of the model.
\<close>

definition getitem :: "Dataset \<Rightarrow> string \<Rightarrow> error + fval DataArray" where
  "getitem ds name =
     (case map_of (data_vars ds) name of
        None \<Rightarrow> Inl KeyError
      | Some v \<Rightarrow> Inr \<lparr>axes = map (\<lambda>d. (d, labels_of ds d)) (vdims v),
                       vals = vdata v, attrs = vattrs v\<rparr>)"

text \<open>
  \<^verbatim>\<open>a.isel(d=i)\<close> with a non-negative integer: the dimension is dropped. A dimension
  the array does not have is a ValueError, a position past the end an IndexError.
\<close>

definition isel :: "string \<Rightarrow> nat \<Rightarrow> 'v DataArray \<Rightarrow> error + 'v DataArray" where
  "isel d i a =
     (case index_of d (dims a) of
        None \<Rightarrow> Inl ValueError
      | Some k \<Rightarrow>
          if i < length (snd (axes a ! k))
          then Inr (a\<lparr>axes := remove_at k (axes a),
                      vals := (\<lambda>idx. vals a (insert_at k i idx))\<rparr>)
          else Inl IndexError)"

text \<open>
  \<^verbatim>\<open>persist\<close> evaluates the pending task graph and keeps the values; the array
  it denotes is the same.
\<close>

definition persist :: "'v DataArray \<Rightarrow> 'v DataArray" where
  "persist a = a"

subsection \<open>Elementwise operations with alignment and broadcasting\<close>

text \<open>
  Two arrays are combined on the dimensions of the first followed by the new dimensions of
  the second. A dimension they share keeps the labels both have (inner join, in the order
  of the first); identical coordinates are taken as they are.
\<close>

definition joined :: "label list \<Rightarrow> label list \<Rightarrow> label list" where
  "joined ls lb = (if ls = lb then ls else filter (\<lambda>l. l \<in> set lb) ls)"

definition src_pos :: "label list \<Rightarrow> label list \<Rightarrow> nat \<Rightarrow> nat" where
  "src_pos ls js i =
     (if ls = js then i else (case index_of (js ! i) ls of None \<Rightarrow> 0 | Some p \<Rightarrow> p))"

definition out_axes ::
  "(string \<times> label list) list \<Rightarrow> (string \<times> label list) list \<Rightarrow> (string \<times> label list) list" where
  "out_axes ax bx =
     map (\<lambda>(d, ls). (d, case map_of bx d of None \<Rightarrow> ls | Some lb \<Rightarrow> joined ls lb)) ax
     @ filter (\<lambda>(d, ls). d \<notin> set (map fst ax)) bx"

definition pull ::
  "(string \<times> label list) list \<Rightarrow> (string \<times> label list) list \<Rightarrow> nat list \<Rightarrow> nat list" where
  "pull ax out idx =
     map (\<lambda>(d, ls). case index_of d (map fst out) of
                      None \<Rightarrow> 0
                    | Some p \<Rightarrow> src_pos ls (snd (out ! p)) (idx ! p)) ax"

definition binop ::
  "('a \<Rightarrow> 'b \<Rightarrow> 'c) \<Rightarrow> 'a DataArray \<Rightarrow> 'b DataArray \<Rightarrow> 'c DataArray" where
  "binop f a b =
     (let out = out_axes (axes a) (axes b)
      in \<lparr>axes = out,
          vals = (\<lambda>idx. f (vals a (pull (axes a) out idx)) (vals b (pull (axes b) out idx))),
          attrs = []\<rparr>)"

text \<open>\<^verbatim>\<open>a > c\<close> and \<^verbatim>\<open>a < c\<close>: a comparison with NaN is false.\<close>

definition gt_scalar :: "fval DataArray \<Rightarrow> real \<Rightarrow> bool DataArray" where
  "gt_scalar a c =
     \<lparr>axes = axes a, vals = (\<lambda>idx. case vals a idx of None \<Rightarrow> False | Some x \<Rightarrow> x > c),
      attrs = []\<rparr>"

definition lt_scalar :: "fval DataArray \<Rightarrow> real \<Rightarrow> bool DataArray" where
  "lt_scalar a c =
     \<lparr>axes = axes a, vals = (\<lambda>idx. case vals a idx of None \<Rightarrow> False | Some x \<Rightarrow> x < c),
      attrs = []\<rparr>"

text \<open>\<^verbatim>\<open>a.where(cond)\<close>: the value where the condition holds, NaN elsewhere; attributes kept.\<close>

definition where_da :: "fval DataArray \<Rightarrow> bool DataArray \<Rightarrow> fval DataArray" where
  "where_da a cond = (binop (\<lambda>v c. if c then v else None) a cond)\<lparr>attrs := attrs a\<rparr>"

section \<open>Figure: elevation and domain mask\<close>

text \<open>
  \<^verbatim>\<open>
  if 'ensemble' in ds['elevation'].dims:
      elevation = ds['elevation'].isel(ensemble=0).persist()
  else:
      elevation = ds['elevation'].persist()
  elevation = elevation.where(elevation > 0)
  \<close>
\<close>

definition elevation_field :: "Dataset \<Rightarrow> error + fval DataArray" where
  "elevation_field ds =
     bindE (getitem ds ''elevation'') (\<lambda>e.
     bindE (if ''ensemble'' \<in> set (dims e)
            then bindE (isel ''ensemble'' 0 e) (\<lambda>x. Inr (persist x))
            else Inr (persist e)) (\<lambda>elevation.
     Inr (where_da elevation (gt_scalar elevation 0))))"

section \<open>Dimensional reductions\<close>

text \<open>
  The reductions skip missing values, as the library does for float arrays: the mean, the
  standard deviation (population form, divisor \<open>n\<close>), the minimum and the maximum of the
  present values are NaN when no value is present; the sum of no value is 0.
\<close>

datatype reducer = Mean | Std | Minimum | Maximum | Sum

definition present :: "fval list \<Rightarrow> real list" where
  "present vs = concat (map (\<lambda>v. case v of None \<Rightarrow> [] | Some x \<Rightarrow> [x]) vs)"

definition avg :: "real list \<Rightarrow> real" where
  "avg xs = sum_list xs / real (length xs)"

fun apply_reducer :: "reducer \<Rightarrow> fval list \<Rightarrow> fval" where
  "apply_reducer Mean vs =
     (let xs = present vs in if xs = [] then None else Some (avg xs))"
| "apply_reducer Std vs =
     (let xs = present vs
      in if xs = [] then None else Some (sqrt (avg (map (\<lambda>x. (x - avg xs)\<^sup>2) xs))))"
| "apply_reducer Minimum vs =
     (let xs = present vs in if xs = [] then None else Some (Min (set xs)))"
| "apply_reducer Maximum vs =
     (let xs = present vs in if xs = [] then None else Some (Max (set xs)))"
| "apply_reducer Sum vs = Some (sum_list (present vs))"

text \<open>
  The cells of the input that a cell of the result aggregates: every axis marked as
  reduced ranges over all its positions, every other axis takes its position from the
  index of the result.
\<close>

fun expand :: "(bool \<times> nat) list \<Rightarrow> nat list \<Rightarrow> nat list list" where
  "expand [] idx = [[]]"
| "expand ((red, n) # ax) idx =
     (if red then concat (map (\<lambda>i. map ((#) i) (expand ax idx)) [0..<n])
      else (case idx of [] \<Rightarrow> [] | i # rest \<Rightarrow> map ((#) i) (expand ax rest)))"

text \<open>
  \<^verbatim>\<open>a.mean(dim)\<close>, \<^verbatim>\<open>a.std(dim)\<close>, \<^verbatim>\<open>a.min(dim)\<close>, \<^verbatim>\<open>a.max(dim)\<close> over one
  dimension or a tuple of dimensions. A dimension the array does not have is a
  ValueError; so is the minimum or maximum over a dimension of length zero. The result
  has no attributes.
\<close>

definition reduce :: "reducer \<Rightarrow> string list \<Rightarrow> fval DataArray \<Rightarrow> error + fval DataArray" where
  "reduce r ds a =
     (if \<not> set ds \<subseteq> set (dims a) then Inl ValueError
      else if (r = Minimum \<or> r = Maximum) \<and> (\<exists>ax \<in> set (axes a). fst ax \<in> set ds \<and> snd ax = [])
      then Inl ValueError
      else Inr \<lparr>axes = filter (\<lambda>ax. fst ax \<notin> set ds) (axes a),
                vals = (\<lambda>idx. apply_reducer r
                          (map (vals a)
                             (expand (map (\<lambda>ax. (fst ax \<in> set ds, length (snd ax))) (axes a)) idx))),
                attrs = []\<rparr>)"

section \<open>Selection by label and by position\<close>

definition positions_of :: "'a \<Rightarrow> 'a list \<Rightarrow> nat list" where
  "positions_of x xs = filter (\<lambda>i. xs ! i = x) [0..<length xs]"

text \<open>Keeping the positions \<open>ps\<close> of axis \<open>k\<close>, in the order given.\<close>

definition take_positions :: "nat \<Rightarrow> nat list \<Rightarrow> 'v DataArray \<Rightarrow> 'v DataArray" where
  "take_positions k ps a =
     a\<lparr>axes := (axes a)[k := (fst (axes a ! k), map ((!) (snd (axes a ! k))) ps)],
       vals := (\<lambda>idx. vals a (idx[k := ps ! (idx ! k)]))\<rparr>"

text \<open>
  \<^verbatim>\<open>a.sel(d=label)\<close> with one literal label: KeyError when the coordinate does not hold
  the label; the dimension is dropped when the label occurs once, and kept, restricted to
  the occurrences, when the label is repeated. A date string such as
  \<^verbatim>\<open>'1984-07-31'\<close> on a coordinate of calendar days is the label of that day.
\<close>

definition sel_label :: "string \<Rightarrow> label \<Rightarrow> 'v DataArray \<Rightarrow> error + 'v DataArray" where
  "sel_label d l a =
     (case index_of d (dims a) of
        None \<Rightarrow> Inl ValueError
      | Some k \<Rightarrow>
          (case positions_of l (snd (axes a ! k)) of
             [] \<Rightarrow> Inl KeyError
           | [i] \<Rightarrow> Inr (a\<lparr>axes := remove_at k (axes a),
                            vals := (\<lambda>idx. vals a (insert_at k i idx))\<rparr>)
           | ps \<Rightarrow> Inr (take_positions k ps a)))"

text \<open>
  \<^verbatim>\<open>a.sel(d=[l1, ..., ln])\<close> with a list of labels: the coordinate becomes the list.
  KeyError when a label is not in the coordinate; a coordinate with repeated labels cannot
  be reindexed.
\<close>

definition sel_list :: "string \<Rightarrow> label list \<Rightarrow> 'v DataArray \<Rightarrow> error + 'v DataArray" where
  "sel_list d ls a =
     (case index_of d (dims a) of
        None \<Rightarrow> Inl ValueError
      | Some k \<Rightarrow>
          (let cs = snd (axes a ! k)
           in if \<not> distinct cs then Inl InvalidIndexError
              else if \<exists>l \<in> set ls. l \<notin> set cs then Inl KeyError
              else Inr (take_positions k
                          (map (\<lambda>l. case index_of l cs of None \<Rightarrow> 0 | Some p \<Rightarrow> p) ls) a)))"

text \<open>\<^verbatim>\<open>a.isel(d=slice(lo, hi))\<close> with non-negative bounds: positions \<open>lo\<close> up to \<open>hi - 1\<close>
  that exist.\<close>

definition isel_slice :: "string \<Rightarrow> nat \<Rightarrow> nat \<Rightarrow> 'v DataArray \<Rightarrow> error + 'v DataArray" where
  "isel_slice d lo hi a =
     (case index_of d (dims a) of
        None \<Rightarrow> Inl ValueError
      | Some k \<Rightarrow> Inr (take_positions k [lo..<min hi (length (snd (axes a ! k)))] a))"

text \<open>
  A slice of labels \<^verbatim>\<open>slice(lo, hi)\<close> on a coordinate of numbers is a range of positions.
  On an increasing coordinate it runs from the first entry \<open>\<ge> lo\<close> to the last entry
  \<open>\<le> hi\<close>; on a decreasing one from the first entry \<open>\<le> lo\<close> to the last entry
  \<open>\<ge> hi\<close>; on any other coordinate both bounds must be entries that occur once.
\<close>

definition slice_locs :: "real list \<Rightarrow> real \<Rightarrow> real \<Rightarrow> error + (nat \<times> nat)" where
  "slice_locs xs lo hi =
     (if sorted xs
      then Inr (length (filter (\<lambda>x. x < lo) xs), length (filter (\<lambda>x. x \<le> hi) xs))
      else if sorted (rev xs)
      then Inr (length (filter (\<lambda>x. x > lo) xs), length (filter (\<lambda>x. x \<ge> hi) xs))
      else (case (positions_of lo xs, positions_of hi xs) of
              ([i], [j]) \<Rightarrow> Inr (i, Suc j)
            | _ \<Rightarrow> Inl KeyError))"

fun nums :: "label list \<Rightarrow> real list option" where
  "nums [] = Some []"
| "nums (Num x # ls) = map_option ((#) x) (nums ls)"
| "nums (_ # ls) = None"

definition var_take :: "string \<Rightarrow> nat list \<Rightarrow> Variable \<Rightarrow> Variable" where
  "var_take d ps v =
     (case index_of d (vdims v) of
        None \<Rightarrow> v
      | Some k \<Rightarrow> v\<lparr>vdata := (\<lambda>idx. vdata v (idx[k := ps ! (idx ! k)]))\<rparr>)"

text \<open>
  \<^verbatim>\<open>ds.sel(d=slice(lo, hi))\<close> on a dataset restricts the coordinate and every variable
  that has the dimension.
\<close>

definition ds_sel_slice :: "string \<Rightarrow> real \<Rightarrow> real \<Rightarrow> Dataset \<Rightarrow> error + Dataset" where
  "ds_sel_slice d lo hi ds =
     (case map_of (coords ds) d of
        None \<Rightarrow> Inl ValueError
      | Some ls \<Rightarrow>
          (case nums ls of
             None \<Rightarrow> Inl TypeError
           | Some xs \<Rightarrow>
               bindE (slice_locs xs lo hi) (\<lambda>(s, t).
                 let ps = [s..<t]
                 in Inr (ds\<lparr>coords := map (\<lambda>(n, l). if n = d then (n, map ((!) l) ps) else (n, l))
                                         (coords ds),
                            data_vars := map (\<lambda>(n, v). (n, var_take d ps v)) (data_vars ds)\<rparr>))))"

section \<open>Temporal resampling and grouping by season\<close>

text \<open>
  Days are ordered by year, month and day. The library represents the days from
  22 September 1677 to 11 April 2262.
\<close>

definition day_key :: "int \<times> int \<times> int \<Rightarrow> int" where
  "day_key t = (case t of (y, m, d) \<Rightarrow> (y * 12 + (m - 1)) * 31 + (d - 1))"

definition representable :: "int \<times> int \<times> int \<Rightarrow> bool" where
  "representable t = (day_key (1677, 9, 22) \<le> day_key t \<and> day_key t \<le> day_key (2262, 4, 11))"

text \<open>A time coordinate holds such days; any other label there is a TypeError.\<close>

fun date_of :: "label \<Rightarrow> (int \<times> int \<times> int) option" where
  "date_of (Date y m d) =
     (if 1 \<le> m \<and> m \<le> 12 \<and> 1 \<le> d \<and> d \<le> 31 \<and> representable (y, m, d)
      then Some (y, m, d) else None)"
| "date_of _ = None"

fun dates :: "label list \<Rightarrow> (int \<times> int \<times> int) list option" where
  "dates [] = Some []"
| "dates (l # ls) =
     (case date_of l of None \<Rightarrow> None | Some t \<Rightarrow> map_option ((#) t) (dates ls))"

text \<open>
  The two frequencies of the notebook: \<^verbatim>\<open>'AS'\<close>, years starting on 1 January, and
  \<^verbatim>\<open>'QS-Mar'\<close>, quarters starting on 1 March, 1 June, 1 September and 1 December.
  A bucket is numbered by its year, or by its quarter counted from March of year 0, and
  labelled by its first day.
\<close>

datatype freq = AS | QS_Mar

fun bucket :: "freq \<Rightarrow> int \<times> int \<times> int \<Rightarrow> int" where
  "bucket AS (y, m, d) = y"
| "bucket QS_Mar (y, m, d) = (12 * y + (m - 1) - 2) div 3"

fun bucket_label :: "freq \<Rightarrow> int \<Rightarrow> label" where
  "bucket_label AS q = Date q 1 1"
| "bucket_label QS_Mar q = Date ((3 * q + 2) div 12) ((3 * q + 2) mod 12 + 1) 1"

text \<open>
  \<^verbatim>\<open>a.resample(time=f).sum('time')\<close> and \<^verbatim>\<open>.max('time')\<close>: the time coordinate must
  be increasing (ValueError otherwise) and not empty (IndexError otherwise); the result has
  one time label for every bucket from the bucket of the first day to the bucket of the
  last day, each of which must start on a day the library represents
  (OutOfBoundsDatetime otherwise). A bucket without any day holds NaN, every other bucket
  the reduction of its days.
\<close>

definition resample ::
  "string \<Rightarrow> freq \<Rightarrow> reducer \<Rightarrow> fval DataArray \<Rightarrow> error + fval DataArray" where
  "resample d f r a =
     (case index_of d (dims a) of
        None \<Rightarrow> Inl KeyError
      | Some k \<Rightarrow>
          (case dates (snd (axes a ! k)) of
             None \<Rightarrow> Inl TypeError
           | Some ts \<Rightarrow>
               if \<not> sorted (map day_key ts) then Inl ValueError
               else if ts = [] then Inl IndexError
               else
                 (let qs = map (bucket f) ts;
                      bins = [hd qs..last qs]
                  in if list_ex (\<lambda>q. date_of (bucket_label f q) = None) bins
                     then Inl OutOfBoundsDatetime
                     else Inr \<lparr>axes = (axes a)[k := (d, map (bucket_label f) bins)],
                          vals = (\<lambda>idx.
                            let ms = filter (\<lambda>j. qs ! j = bins ! (idx ! k)) [0..<length qs]
                            in if ms = [] then None
                               else apply_reducer r (map (\<lambda>j. vals a (idx[k := j])) ms)),
                          attrs = []\<rparr>)))"

text \<open>
  The season of a month, as \<^verbatim>\<open>time.season\<close> computes it: the name at position
  \<open>(month div 3) mod 4\<close> of DJF, MAM, JJA, SON.
\<close>

definition season_of :: "int \<Rightarrow> string" where
  "season_of m = [''DJF'', ''MAM'', ''JJA'', ''SON''] ! nat ((m div 3) mod 4)"

text \<open>The group keys: the season names that occur, each once, in sorted (alphabetical) order.\<close>

definition group_keys :: "string list \<Rightarrow> string list" where
  "group_keys ss = filter (\<lambda>g. g \<in> set ss) [''DJF'', ''JJA'', ''MAM'', ''SON'']"

text \<open>
  \<^verbatim>\<open>a.groupby('time.season').mean('time')\<close>: one group for every key; the dimension
  \<open>season\<close> takes the place of the time dimension.
\<close>

definition groupby_season ::
  "string \<Rightarrow> reducer \<Rightarrow> fval DataArray \<Rightarrow> error + fval DataArray" where
  "groupby_season d r a =
     (case index_of d (dims a) of
        None \<Rightarrow> Inl KeyError
      | Some k \<Rightarrow>
          (case dates (snd (axes a ! k)) of
             None \<Rightarrow> Inl TypeError
           | Some ts \<Rightarrow>
               (let ss = map (\<lambda>(y, m, d). season_of m) ts;
                    keys = group_keys ss
                in Inr \<lparr>axes = (axes a)[k := (''season'', map Str keys)],
                        vals = (\<lambda>idx. apply_reducer r
                                  (map (\<lambda>j. vals a (idx[k := j]))
                                     (filter (\<lambda>j. ss ! j = keys ! (idx ! k)) [0..<length ss]))),
                        attrs = []\<rparr>)))"

section \<open>The analyses of the notebook\<close>

definition sub_fval :: "fval \<Rightarrow> fval \<Rightarrow> fval" where
  "sub_fval x y = (case x of None \<Rightarrow> None | Some a \<Rightarrow> (case y of None \<Rightarrow> None | Some b \<Rightarrow> Some (a - b)))"

subsection \<open>Ensemble uncertainty for a single day\<close>

text \<open>
  \<^verbatim>\<open>
  temp = ds['t_mean'].sel(time='1984-07-31')
  temp_ens_mean = temp.mean('ensemble')
  temp_errors = temp - temp_ens_mean
  temp_std_errors = temp_errors.std('ensemble')
  \<close>
\<close>

definition temp :: "Dataset \<Rightarrow> error + fval DataArray" where
  "temp ds = bindE (getitem ds ''t_mean'') (sel_label ''time'' (Date 1984 7 31))"

definition temp_ens_mean :: "Dataset \<Rightarrow> error + fval DataArray" where
  "temp_ens_mean ds = bindE (temp ds) (reduce Mean [''ensemble''])"

definition temp_errors :: "Dataset \<Rightarrow> error + fval DataArray" where
  "temp_errors ds =
     bindE (temp ds) (\<lambda>t. bindE (temp_ens_mean ds) (\<lambda>m. Inr (binop sub_fval t m)))"

definition temp_std_errors :: "Dataset \<Rightarrow> error + fval DataArray" where
  "temp_std_errors ds = bindE (temp_errors ds) (reduce Std [''ensemble''])"

text \<open>
  The check that the specification describes for these errors, on any array: the mean over
  the ensemble is subtracted from every member, as in \<^verbatim>\<open>temp - temp.mean('ensemble')\<close>,
  and the differences are aggregated again by the mean over the ensemble.
\<close>

definition mean_of_errors :: "fval DataArray \<Rightarrow> error + fval DataArray" where
  "mean_of_errors a =
     bindE (reduce Mean [''ensemble''] a) (\<lambda>m.
     reduce Mean [''ensemble''] (binop sub_fval a m))"

subsection \<open>Intra-ensemble range\<close>

text \<open>
  \<^verbatim>\<open>
  temp_mean = ds['t_mean'].mean(dim='time')
  spread = (temp_mean.max(dim='ensemble') - temp_mean.min(dim='ensemble'))
  spread = spread.persist(retries=2)
  spread.attrs['units'] = 'degC'
  \<close>
\<close>

definition set_attr :: "string \<Rightarrow> string \<Rightarrow> 'v DataArray \<Rightarrow> 'v DataArray" where
  "set_attr k v a = a\<lparr>attrs := (k, v) # filter (\<lambda>p. fst p \<noteq> k) (attrs a)\<rparr>"

definition temp_mean :: "Dataset \<Rightarrow> error + fval DataArray" where
  "temp_mean ds = bindE (getitem ds ''t_mean'') (reduce Mean [''time''])"

definition spread :: "Dataset \<Rightarrow> error + fval DataArray" where
  "spread ds =
     bindE (temp_mean ds) (\<lambda>m.
     bindE (reduce Maximum [''ensemble''] m) (\<lambda>hi.
     bindE (reduce Minimum [''ensemble''] m) (\<lambda>lo.
     Inr (set_attr ''units'' ''degC'' (persist (binop sub_fval hi lo))))))"

subsection \<open>Average seasonal snowfall\<close>

text \<open>
  \<^verbatim>\<open>
  da_snow = ds['pcp'].where(ds['t_mean'] < 0.).resample(time='QS-Mar').sum('time')
  seasonal_snow = da_snow.isel(ensemble=slice(0, 4)).groupby('time.season').mean('time').persist()
  # properly sort the seasons
  seasonal_snow = seasonal_snow.sel(season=['DJF', 'MAM','JJA', 'SON'])
  seasonal_snow.attrs['units'] = 'mm/season'
  \<close>
\<close>

definition snow_mask :: "Dataset \<Rightarrow> error + fval DataArray" where
  "snow_mask ds =
     bindE (getitem ds ''pcp'') (\<lambda>p.
     bindE (getitem ds ''t_mean'') (\<lambda>t.
     Inr (where_da p (lt_scalar t 0))))"

definition da_snow :: "Dataset \<Rightarrow> error + fval DataArray" where
  "da_snow ds = bindE (snow_mask ds) (resample ''time'' QS_Mar Sum)"

definition grouped_snow :: "Dataset \<Rightarrow> error + fval DataArray" where
  "grouped_snow ds =
     bindE (da_snow ds) (\<lambda>s.
     bindE (isel_slice ''ensemble'' 0 4 s) (\<lambda>s4.
     bindE (groupby_season ''time'' Mean s4) (\<lambda>g. Inr (persist g))))"

definition season_order :: "label list" where
  "season_order = [Str ''DJF'', Str ''MAM'', Str ''JJA'', Str ''SON'']"

definition seasonal_snow :: "Dataset \<Rightarrow> error + fval DataArray" where
  "seasonal_snow ds =
     bindE (grouped_snow ds) (\<lambda>g.
     bindE (sel_list ''season'' season_order g) (\<lambda>s.
     Inr (set_attr ''units'' ''mm/season'' s)))"

subsection \<open>Annual maximum precipitation near Austin\<close>

text \<open>
  \<^verbatim>\<open>
  buf = 0.25  # look at Austin +/- 0.25 deg
  ds_tx = ds.sel(lon=slice(-97.7431-buf, -97.7431+buf), lat=slice(30.2672-buf, 30.2672+buf))
  pcp_ann_max = ds_tx['pcp'].resample(time='AS').max('time')
  pcp_ann_max_ts = pcp_ann_max.max(('lat', 'lon')).persist()
  \<close>
\<close>

definition buf :: real where
  "buf = 0.25"

definition ds_tx :: "Dataset \<Rightarrow> error + Dataset" where
  "ds_tx ds =
     bindE (ds_sel_slice ''lon'' (- 97.7431 - buf) (- 97.7431 + buf) ds)
           (ds_sel_slice ''lat'' (30.2672 - buf) (30.2672 + buf))"

definition pcp_ann_max :: "Dataset \<Rightarrow> error + fval DataArray" where
  "pcp_ann_max ds =
     bindE (ds_tx ds) (\<lambda>tx. bindE (getitem tx ''pcp'') (resample ''time'' AS Maximum))"

definition pcp_ann_max_ts :: "Dataset \<Rightarrow> error + fval DataArray" where
  "pcp_ann_max_ts ds =
     bindE (pcp_ann_max ds) (\<lambda>a.
     bindE (reduce Maximum [''lat'', ''lon''] a) (\<lambda>r. Inr (persist r)))"

section \<open>The notebook session\<close>

text \<open>
  The cells of the notebook run in one namespace. After \<^verbatim>\<open>ds = xr.open_zarr(gcsmap)\<close>
  has bound \<open>ds\<close>, every statement is an assignment to one name whose right-hand side
  reads names of the namespace; a name that is not bound is a NameError. The notebook binds
  every name to one kind of value (a dataset, an array or a number); a session in which a
  name holds a value of another kind is not produced by it, and the model raises there
  without following the library. An item assignment \<^verbatim>\<open>x.attrs['units'] = v\<close> updates the
  array bound to \<open>x\<close>; no other name is bound to that array, since every operation
  returns a new array with its own attributes. The plotting calls change no name and are
  left out.
\<close>

datatype pyval = VDataset Dataset | VArray "fval DataArray" | VFloat real

type_synonym session = "string \<Rightarrow> pyval option"

type_synonym stmt = "string \<times> (session \<Rightarrow> error + pyval)"

definition get_ds :: "session \<Rightarrow> string \<Rightarrow> error + Dataset" where
  "get_ds s x =
     (case s x of None \<Rightarrow> Inl NameError | Some (VDataset d) \<Rightarrow> Inr d | Some _ \<Rightarrow> Inl AttributeError)"

definition get_da :: "session \<Rightarrow> string \<Rightarrow> error + fval DataArray" where
  "get_da s x =
     (case s x of None \<Rightarrow> Inl NameError | Some (VArray a) \<Rightarrow> Inr a | Some _ \<Rightarrow> Inl AttributeError)"

definition get_float :: "session \<Rightarrow> string \<Rightarrow> error + real" where
  "get_float s x =
     (case s x of None \<Rightarrow> Inl NameError | Some (VFloat v) \<Rightarrow> Inr v | Some _ \<Rightarrow> Inl TypeError)"

definition arr :: "error + fval DataArray \<Rightarrow> error + pyval" where
  "arr m = bindE m (\<lambda>a. Inr (VArray a))"

text \<open>A statement that raises binds nothing.\<close>

definition run_stmt :: "stmt \<Rightarrow> session \<Rightarrow> error + session" where
  "run_stmt c s = bindE (snd c s) (\<lambda>v. Inr (s(fst c \<mapsto> v)))"

text \<open>
  Running statements in sequence stops at the first one that raises; the namespace keeps
  what was bound before.
\<close>

fun exec :: "stmt list \<Rightarrow> session \<Rightarrow> session \<times> error option" where
  "exec [] s = (s, None)"
| "exec (c # cs) s =
     (case run_stmt c s of Inl e \<Rightarrow> (s, Some e) | Inr s' \<Rightarrow> exec cs s')"

definition elevation_cells :: "stmt list" where
  "elevation_cells =
     [(''elevation'', \<lambda>s.
         bindE (get_ds s ''ds'') (\<lambda>ds.
         bindE (getitem ds ''elevation'') (\<lambda>e.
           if ''ensemble'' \<in> set (dims e)
           then arr (bindE (isel ''ensemble'' 0 e) (\<lambda>x. Inr (persist x)))
           else arr (Inr (persist e))))),
      (''elevation'', \<lambda>s.
         arr (bindE (get_da s ''elevation'') (\<lambda>e. Inr (where_da e (gt_scalar e 0)))))]"

definition uncertainty_cells :: "stmt list" where
  "uncertainty_cells =
     [(''temp'', \<lambda>s.
         arr (bindE (get_ds s ''ds'') (\<lambda>ds.
              bindE (getitem ds ''t_mean'') (sel_label ''time'' (Date 1984 7 31))))),
      (''temp_ens_mean'', \<lambda>s.
         arr (bindE (get_da s ''temp'') (reduce Mean [''ensemble'']))),
      (''temp_errors'', \<lambda>s.
         arr (bindE (get_da s ''temp'') (\<lambda>t.
              bindE (get_da s ''temp_ens_mean'') (\<lambda>m. Inr (binop sub_fval t m))))),
      (''temp_std_errors'', \<lambda>s.
         arr (bindE (get_da s ''temp_errors'') (reduce Std [''ensemble''])))]"

definition spread_cells :: "stmt list" where
  "spread_cells =
     [(''temp_mean'', \<lambda>s.
         arr (bindE (get_ds s ''ds'') (\<lambda>ds.
              bindE (getitem ds ''t_mean'') (reduce Mean [''time''])))),
      (''spread'', \<lambda>s.
         arr (bindE (get_da s ''temp_mean'') (\<lambda>m.
              bindE (reduce Maximum [''ensemble''] m) (\<lambda>hi.
              bindE (get_da s ''temp_mean'') (\<lambda>m'.
              bindE (reduce Minimum [''ensemble''] m') (\<lambda>lo.
              Inr (binop sub_fval hi lo))))))),
      (''spread'', \<lambda>s. arr (bindE (get_da s ''spread'') (\<lambda>a. Inr (persist a)))),
      (''spread'', \<lambda>s.
         arr (bindE (get_da s ''spread'') (\<lambda>a. Inr (set_attr ''units'' ''degC'' a))))]"

definition snow_cells :: "stmt list" where
  "snow_cells =
     [(''da_snow'', \<lambda>s.
         arr (bindE (get_ds s ''ds'') (\<lambda>ds.
              bindE (getitem ds ''pcp'') (\<lambda>p.
              bindE (get_ds s ''ds'') (\<lambda>ds'.
              bindE (getitem ds' ''t_mean'') (\<lambda>t.
              resample ''time'' QS_Mar Sum (where_da p (lt_scalar t 0)))))))),
      (''seasonal_snow'', \<lambda>s.
         arr (bindE (get_da s ''da_snow'') (\<lambda>a.
              bindE (isel_slice ''ensemble'' 0 4 a) (\<lambda>s4.
              bindE (groupby_season ''time'' Mean s4) (\<lambda>g. Inr (persist g)))))),
      (''seasonal_snow'', \<lambda>s.
         arr (bindE (get_da s ''seasonal_snow'') (sel_list ''season'' season_order))),
      (''seasonal_snow'', \<lambda>s.
         arr (bindE (get_da s ''seasonal_snow'') (\<lambda>a. Inr (set_attr ''units'' ''mm/season'' a))))]"

definition austin_cells :: "stmt list" where
  "austin_cells =
     [(''buf'', \<lambda>s. Inr (VFloat 0.25)),
      (''ds_tx'', \<lambda>s.
         bindE (get_ds s ''ds'') (\<lambda>ds.
         bindE (get_float s ''buf'') (\<lambda>b.
         bindE (bindE (ds_sel_slice ''lon'' (- 97.7431 - b) (- 97.7431 + b) ds)
                      (ds_sel_slice ''lat'' (30.2672 - b) (30.2672 + b)))
               (\<lambda>tx. Inr (VDataset tx))))),
      (''pcp_ann_max'', \<lambda>s.
         arr (bindE (get_ds s ''ds_tx'') (\<lambda>tx.
              bindE (getitem tx ''pcp'') (resample ''time'' AS Maximum)))),
      (''pcp_ann_max_ts'', \<lambda>s.
         arr (bindE (get_da s ''pcp_ann_max'') (\<lambda>a.
              bindE (reduce Maximum [''lat'', ''lon''] a) (\<lambda>r. Inr (persist r)))))]"

text \<open>The five analyses, and all statements after the load in the order of the notebook.\<close>

definition analyses :: "stmt list list" where
  "analyses = [elevation_cells, uncertainty_cells, spread_cells, snow_cells, austin_cells]"

definition notebook :: "stmt list" where
  "notebook = concat analyses"

text \<open>The names a list of statements assigns, and right-hand sides that read only given names.\<close>

definition assigned :: "stmt list \<Rightarrow> string set" where
  "assigned cs = fst ` set cs"

definition reads_only :: "string set \<Rightarrow> (session \<Rightarrow> error + pyval) \<Rightarrow> bool" where
  "reads_only V f = (\<forall>s t. (\<forall>x\<in>V. s x = t x) \<longrightarrow> f s = f t)"

section \<open>A small dataset\<close>

text \<open>
  Two ensemble members, four days of 1984 (one in each season), one latitude and two
  longitudes, the second inside the Austin box. The mean temperature is missing at the
  first longitude.
\<close>

definition ex_ds :: Dataset where
  "ex_ds =
     \<lparr>coords = [(''ensemble'', [Num 0, Num 1]),
                (''time'', [Date 1984 1 15, Date 1984 4 15, Date 1984 7 31, Date 1984 10 15]),
                (''lat'', [Num 30.25]),
                (''lon'', [Num (- 98.5), Num (- 97.75)])],
      data_vars =
        [(''elevation'',
            \<lparr>vdims = [''ensemble'', ''lat'', ''lon''],
             vdata = (\<lambda>idx. if idx ! 2 = 0 then Some (- 3) else Some 150),
             vattrs = []\<rparr>),
         (''t_mean'',
            \<lparr>vdims = [''time'', ''lat'', ''lon'', ''ensemble''],
             vdata = (\<lambda>idx. if idx ! 2 = 0 then None
                             else if idx ! 3 = 0 then Some (- 2) else Some 3),
             vattrs = []\<rparr>),
         (''pcp'',
            \<lparr>vdims = [''ensemble'', ''time'', ''lat'', ''lon''],
             vdata = (\<lambda>idx. Some (real (idx ! 1) + 1)),
             vattrs = []\<rparr>)]\<rparr>"

text \<open>The same dataset on a grid far from Austin.\<close>

definition ex_far :: Dataset where
  "ex_far =
     ex_ds\<lparr>coords := [(''ensemble'', [Num 0, Num 1]),
                       (''time'', [Date 1984 1 15, Date 1984 4 15, Date 1984 7 31, Date 1984 10 15]),
                       (''lat'', [Num 30.25]),
                       (''lon'', [Num 10, Num 20])]\<rparr>"

text \<open>The same dataset with two days, in 1984 and in 1986.\<close>

definition ex_years :: Dataset where
  "ex_years =
     ex_ds\<lparr>coords := [(''ensemble'', [Num 0, Num 1]),
                       (''time'', [Date 1984 7 31, Date 1986 1 10]),
                       (''lat'', [Num 30.25]),
                       (''lon'', [Num (- 98.5), Num (- 97.75)])]\<rparr>"


text \<open>The session right after the load of the small dataset.\<close>

definition ex_session :: session where
  "ex_session = Map.empty(''ds'' \<mapsto> VDataset ex_ds)"

section \<open>The elevation field\<close>

lemma index_of_None_iff: "index_of x xs = None \<longleftrightarrow> x \<notin> set xs"
  by (induction xs) auto

lemma index_of_Some: "index_of x xs = Some k \<Longrightarrow> k < length xs \<and> xs ! k = x"
  by (induction xs arbitrary: k) (auto split: if_splits)

lemma index_of_nth_distinct: "distinct xs \<Longrightarrow> k < length xs \<Longrightarrow> index_of (xs ! k) xs = Some k"
proof (induction xs arbitrary: k)
  case Nil
  then show ?case by simp
next
  case (Cons y ys)
  show ?case
  proof (cases k)
    case 0
    then show ?thesis by simp
  next
    case (Suc j)
    with Cons.prems have "ys ! j \<noteq> y" "j < length ys" "distinct ys" by auto
    with Cons.IH[of j] Suc show ?thesis by auto
  qed
qed

lemma out_axes_self: 
  assumes "distinct (map fst ax)" shows "out_axes ax ax = ax"
proof -
  have "map (\<lambda>(d, ls). (d, case map_of ax d of None \<Rightarrow> ls | Some lb \<Rightarrow> joined ls lb)) ax = map (\<lambda>x. x) ax"
  proof (rule map_cong[OF refl])
    fix x assume "x \<in> set ax"
    then have "map_of ax (fst x) = Some (snd x)" using assms by (simp add: map_of_eq_Some_iff)
    then show "(case x of (d, ls) \<Rightarrow> (d, case map_of ax d of None \<Rightarrow> ls | Some lb \<Rightarrow> joined ls lb)) = x"
      by (cases x) (simp add: joined_def)
  qed
  moreover have "filter (\<lambda>(d, ls). d \<notin> set (map fst ax)) ax = []"
    by (force simp: filter_empty_conv)
  ultimately show ?thesis by (simp add: out_axes_def)
qed

lemma pull_self:
  assumes "distinct (map fst ax)" "length idx = length ax"
  shows "pull ax ax idx = idx"
proof (rule nth_equalityI)
  show "length (pull ax ax idx) = length idx" using assms by (simp add: pull_def)
next
  fix i assume "i < length (pull ax ax idx)"
  then have i: "i < length ax" by (simp add: pull_def)
  have "index_of (fst (ax ! i)) (map fst ax) = Some i"
    using index_of_nth_distinct[OF assms(1), of i] i by simp
  then show "pull ax ax idx ! i = idx ! i"
    using i by (simp add: pull_def src_pos_def split_beta)
qed

lemma in_bounds_length: "in_bounds ax idx \<Longrightarrow> length idx = length ax"
  by (simp add: in_bounds_def list_all2_lengthD)

lemma fst_notin_set:
  "d \<notin> set (map fst ax) \<Longrightarrow> \<forall>x\<in>set ax. fst x \<noteq> d"
  by (metis image_eqI set_map)

lemma remove_at_filter:
  "distinct (map fst ax) \<Longrightarrow> index_of d (map fst ax) = Some k \<Longrightarrow> remove_at k ax = filter (\<lambda>a. fst a \<noteq> d) ax"
proof (induction ax arbitrary: k)
  case Nil then show ?case by simp
next
  case (Cons a ax)
  show ?case
  proof (cases "d = fst a")
    case True
    with Cons.prems have "k = 0" by simp
    moreover have "\<forall>x\<in>set ax. fst x \<noteq> d"
      using Cons.prems True fst_notin_set[of d ax] by simp
    then have "filter (\<lambda>a. fst a \<noteq> d) ax = ax" by (simp add: filter_id_conv)
    ultimately show ?thesis using True by (simp add: remove_at_def)
  next
    case False
    with Cons.prems obtain j where j: "index_of d (map fst ax) = Some j" "k = Suc j" by auto
    with Cons.IH[of j] Cons.prems False show ?thesis by (simp add: remove_at_def)
  qed
qed


lemma where_self_axes:
  assumes "distinct (dims a)"
  shows "axes (where_da a (gt_scalar a c)) = axes a"
proof -
  have d: "distinct (map fst (axes a))" using assms by (simp add: dims_def)
  show ?thesis
    by (simp add: where_da_def binop_def gt_scalar_def Let_def out_axes_self[OF d])
qed

lemma where_self_vals:
  assumes "distinct (dims a)" "in_bounds (axes a) idx"
  shows "vals (where_da a (gt_scalar a c)) idx =
           (case vals a idx of None \<Rightarrow> None | Some x \<Rightarrow> if x > c then Some x else None)"
proof -
  have d: "distinct (map fst (axes a))" using assms(1) by (simp add: dims_def)
  have l: "length idx = length (axes a)" using assms(2) by (rule in_bounds_length)
  show ?thesis
    by (simp add: where_da_def binop_def gt_scalar_def Let_def out_axes_self[OF d]
          pull_self[OF d l] split: option.splits)
qed

text \<open>
  C10. The rendered elevation field is member 0 of the elevation variable when that
  variable has an ensemble dimension, and the variable itself otherwise; a cell whose
  elevation is positive keeps its value, and a cell whose elevation is zero, negative or
  missing is missing.
\<close>

theorem elevation_field_masks:
  assumes "elevation_field ds = Inr r" and "getitem ds ''elevation'' = Inr e"
    and "distinct (dims e)"
  shows "axes r = filter (\<lambda>ax. fst ax \<noteq> ''ensemble'') (axes e) \<and>
         (\<forall>idx. in_bounds (axes r) idx \<longrightarrow>
            vals r idx =
              (case (case index_of ''ensemble'' (dims e) of
                       None \<Rightarrow> vals e idx
                     | Some k \<Rightarrow> vals e (insert_at k 0 idx)) of
                 None \<Rightarrow> None
               | Some x \<Rightarrow> if x > 0 then Some x else None))"
proof (cases "index_of ''ensemble'' (dims e)")
  case None
  then have nin: "''ensemble'' \<notin> set (dims e)" by (simp add: index_of_None_iff)
  then have r: "r = where_da e (gt_scalar e 0)"
    using assms(1,2) by (simp add: elevation_field_def bindE_def persist_def)
  have "\<forall>x\<in>set (axes e). fst x \<noteq> ''ensemble''"
    using nin fst_notin_set[of "''ensemble''" "axes e"] by (simp add: dims_def)
  then have f: "filter (\<lambda>ax. fst ax \<noteq> ''ensemble'') (axes e) = axes e"
    by (simp add: filter_id_conv)
  have ax: "axes r = axes e" unfolding r by (rule where_self_axes[OF assms(3)])
  show ?thesis using None f ax where_self_vals[OF assms(3), of _ 0] r by simp
next
  case (Some k)
  then have isin: "''ensemble'' \<in> set (dims e)"
    using index_of_None_iff[of "''ensemble''" "dims e"] by auto
  define m where "m = e\<lparr>axes := remove_at k (axes e), vals := (\<lambda>idx. vals e (insert_at k 0 idx))\<rparr>"
  have r: "r = where_da m (gt_scalar m 0)"
    using assms(1,2) isin Some
    by (simp add: elevation_field_def bindE_def persist_def isel_def m_def split: if_splits)
  have d: "distinct (map fst (axes e))" using assms(3) by (simp add: dims_def)
  have f: "axes m = filter (\<lambda>ax. fst ax \<noteq> ''ensemble'') (axes e)"
    using remove_at_filter[OF d, of "''ensemble''" k] Some by (simp add: m_def dims_def)
  have dm: "distinct (dims m)" unfolding dims_def f using d by (simp add: distinct_map_filter)
  have ax: "axes r = axes m" unfolding r by (rule where_self_axes[OF dm])
  have "\<And>idx. vals m idx = vals e (insert_at k 0 idx)" by (simp add: m_def)
  then show ?thesis using Some f ax where_self_vals[OF dm, of _ 0] r by simp
qed

lemma ex_elevation:
  "getitem ex_ds ''elevation'' =
     Inr \<lparr>axes = [(''ensemble'', [Num 0, Num 1]), (''lat'', [Num 30.25]),
                  (''lon'', [Num (- 98.5), Num (- 97.75)])],
           vals = (\<lambda>idx. if idx ! 2 = 0 then Some (- 3) else Some 150), attrs = []\<rparr>"
  by (simp add: getitem_def ex_ds_def labels_of_def)

theorem elevation_field_masks_witness:
  "\<exists>e r. elevation_field ex_ds = Inr r \<and> getitem ex_ds ''elevation'' = Inr e \<and>
     distinct (dims e) \<and> in_bounds (axes r) [0, 0] \<and> in_bounds (axes r) [0, 1] \<and>
     dims r = [''lat'', ''lon''] \<and> vals r [0, 0] = None \<and> vals r [0, 1] = Some 150"
proof -
  obtain e where e: "getitem ex_ds ''elevation'' = Inr e"
    and ax: "axes e = [(''ensemble'', [Num 0, Num 1]), (''lat'', [Num 30.25]),
                  (''lon'', [Num (- 98.5), Num (- 97.75)])]"
    and v: "vals e = (\<lambda>idx. if idx ! 2 = 0 then Some (- 3) else Some 150)"
    using ex_elevation by simp
  have d: "distinct (dims e)" by (simp add: dims_def ax)
  obtain r where r: "elevation_field ex_ds = Inr r"
    by (simp add: elevation_field_def e bindE_def dims_def ax isel_def)
  have axr: "axes r = [(''lat'', [Num 30.25]), (''lon'', [Num (- 98.5), Num (- 97.75)])]"
    using elevation_field_masks[OF r e d] by (simp add: ax)
  have b0: "in_bounds (axes r) [0, 0]" and b1: "in_bounds (axes r) [0, 1]"
    by (simp_all add: axr in_bounds_def)
  have "vals r [0, 0] = None"
    using elevation_field_masks[OF r e d] b0 by (simp add: dims_def ax v insert_at_def)
  moreover have "vals r [0, 1] = Some 150"
    using elevation_field_masks[OF r e d] b1 by (simp add: dims_def ax v insert_at_def)
  ultimately show ?thesis using r e d b0 b1 axr by (simp add: dims_def)
qed

section \<open>The order of the seasons\<close>

lemma index_of_in_set: "x \<in> set xs \<Longrightarrow> \<exists>p. index_of x xs = Some p \<and> p < length xs \<and> xs ! p = x"
  using index_of_None_iff[of x xs] index_of_Some[of x xs] by (cases "index_of x xs") auto

lemma map_fst_update_same: "(map fst xs)[k := fst (xs ! k)] = map fst xs"
  by (metis list_update_id map_update)

lemma dims_take_positions: "dims (take_positions k ps a) = dims a"
  by (simp add: take_positions_def dims_def map_update map_fst_update_same)

lemma axes_take_positions:
  "k < length (axes a) \<Longrightarrow>
   snd (axes (take_positions k ps a) ! k) = map ((!) (snd (axes a ! k))) ps"
  by (simp add: take_positions_def)

lemma map_nth_index_of:
  assumes "\<forall>l\<in>set ls. l \<in> set cs"
  shows "map ((!) cs) (map (\<lambda>l. case index_of l cs of None \<Rightarrow> 0 | Some p \<Rightarrow> p) ls) = ls"
proof -
  have "\<And>l. l \<in> set ls \<Longrightarrow> cs ! (case index_of l cs of None \<Rightarrow> 0 | Some p \<Rightarrow> p) = l"
  proof -
    fix l assume "l \<in> set ls"
    then have "l \<in> set cs" using assms by simp
    from index_of_in_set[OF this] show "cs ! (case index_of l cs of None \<Rightarrow> 0 | Some p \<Rightarrow> p) = l"
      by auto
  qed
  then show ?thesis by (simp add: map_idI)
qed

lemma sel_list_Inr:
  assumes "sel_list d ls a = Inr s"
  shows "\<exists>k. index_of d (dims a) = Some k \<and> dims s = dims a \<and>
             snd (axes s ! k) = ls \<and> attrs s = attrs a \<and>
             (\<forall>i<length ls. \<forall>idx. idx ! k = i \<longrightarrow>
                (\<exists>p. index_of (ls ! i) (snd (axes a ! k)) = Some p \<and>
                     vals s idx = vals a (idx[k := p])))"
proof (cases "index_of d (dims a)")
  case None
  with assms show ?thesis by (simp add: sel_list_def)
next
  case (Some k)
  define cs where "cs = snd (axes a ! k)"
  define ps where "ps = map (\<lambda>l. case index_of l cs of None \<Rightarrow> 0 | Some p \<Rightarrow> p) ls"
  from assms Some have mem: "\<forall>l\<in>set ls. l \<in> set cs" and s: "s = take_positions k ps a"
    by (auto simp: sel_list_def Let_def cs_def ps_def split: if_splits)
  have k: "k < length (axes a)" using index_of_Some[OF Some] by (simp add: dims_def)
  have c: "snd (axes s ! k) = ls"
    unfolding s using axes_take_positions[OF k, of ps] map_nth_index_of[OF mem]
    by (simp add: ps_def cs_def)
  have v: "\<forall>i<length ls. \<forall>idx. idx ! k = i \<longrightarrow>
                (\<exists>p. index_of (ls ! i) cs = Some p \<and> vals s idx = vals a (idx[k := p]))"
  proof (intro allI impI)
    fix i idx assume i: "i < length ls" and ik: "idx ! k = i"
    then have "ls ! i \<in> set cs" using mem by simp
    from index_of_in_set[OF this] obtain p where p: "index_of (ls ! i) cs = Some p" by blast
    have "vals s idx = vals a (idx[k := p])"
      using i ik p by (simp add: s take_positions_def ps_def)
    with p show "\<exists>p. index_of (ls ! i) cs = Some p \<and> vals s idx = vals a (idx[k := p])" by blast
  qed
  have d: "dims s = dims a" unfolding s by (rule dims_take_positions)
  have at: "attrs s = attrs a" by (simp add: s take_positions_def)
  show ?thesis using Some c v d at unfolding cs_def by blast
qed

lemma bindE_Inr: "bindE m f = Inr y \<Longrightarrow> \<exists>x. m = Inr x \<and> f x = Inr y"
  by (cases m) (simp_all add: bindE_def)

text \<open>
  C6. The seasonal snowfall that is rendered has its season coordinate in the order DJF,
  MAM, JJA, SON, whatever order the grouping produced: the statement after the grouping
  re-indexes the season dimension by that list, and the slice shown for a season is the
  slice the grouping computed for it.
\<close>

theorem seasonal_snow_season_order:
  assumes "seasonal_snow ds = Inr r"
  shows "\<exists>g k. grouped_snow ds = Inr g \<and> index_of ''season'' (dims g) = Some k \<and>
           dims r = dims g \<and>
           snd (axes r ! k) = [Str ''DJF'', Str ''MAM'', Str ''JJA'', Str ''SON''] \<and>
           (\<forall>i<4. \<forall>idx. idx ! k = i \<longrightarrow>
              (\<exists>p. index_of (season_order ! i) (snd (axes g ! k)) = Some p \<and>
                   vals r idx = vals g (idx[k := p])))"
proof -
  from bindE_Inr[OF assms[unfolded seasonal_snow_def]] obtain g
    where g: "grouped_snow ds = Inr g"
      and 1: "bindE (sel_list ''season'' season_order g)
                (\<lambda>s. Inr (set_attr ''units'' ''mm/season'' s)) = Inr r" by blast
  from bindE_Inr[OF 1] obtain s
    where s: "sel_list ''season'' season_order g = Inr s"
      and r: "r = set_attr ''units'' ''mm/season'' s" by auto
  from sel_list_Inr[OF s] obtain k where k: "index_of ''season'' (dims g) = Some k"
    "dims s = dims g" "snd (axes s ! k) = season_order"
    "\<forall>i<length season_order. \<forall>idx. idx ! k = i \<longrightarrow>
       (\<exists>p. index_of (season_order ! i) (snd (axes g ! k)) = Some p \<and>
            vals s idx = vals g (idx[k := p]))" by blast
  have "length season_order = 4" by (simp add: season_order_def)
  with k g show ?thesis
    by (auto simp: r set_attr_def dims_def season_order_def)
qed


lemmas pipeline_defs =
  getitem_def ex_ds_def labels_of_def bindE_def dims_def where_da_def binop_def lt_scalar_def
  out_axes_def joined_def resample_def isel_slice_def groupby_season_def group_keys_def persist_def
  sel_list_def take_positions_def Let_def day_key_def representable_def season_of_def season_order_def
  set_attr_def

lemma ex_grouped: "\<exists>g. grouped_snow ex_ds = Inr g \<and>
   axes g = [(''ensemble'', [Num 0, Num 1]), (''season'', [Str ''DJF'', Str ''JJA'', Str ''MAM'', Str ''SON'']),
     (''lat'', [Num 30.25]), (''lon'', [Num (- 98.5), Num (- 97.75)])]"
  by (simp add: grouped_snow_def da_snow_def snow_mask_def pipeline_defs)


theorem seasonal_snow_season_order_witness:
  "\<exists>r g. seasonal_snow ex_ds = Inr r \<and> grouped_snow ex_ds = Inr g \<and>
     snd (axes g ! 1) = [Str ''DJF'', Str ''JJA'', Str ''MAM'', Str ''SON''] \<and>
     snd (axes r ! 1) = [Str ''DJF'', Str ''MAM'', Str ''JJA'', Str ''SON''] \<and>
     vals r [0, 1, 0, 1] = vals g [0, 2, 0, 1]"
proof -
  obtain g where g: "grouped_snow ex_ds = Inr g"
    and ax: "axes g = [(''ensemble'', [Num 0, Num 1]),
                       (''season'', [Str ''DJF'', Str ''JJA'', Str ''MAM'', Str ''SON'']),
                       (''lat'', [Num 30.25]), (''lon'', [Num (- 98.5), Num (- 97.75)])]"
    using ex_grouped by blast
  obtain r where r: "seasonal_snow ex_ds = Inr r"
    by (simp add: seasonal_snow_def g sel_list_def dims_def ax bindE_def season_order_def Let_def)
  from seasonal_snow_season_order[OF r] obtain k where
    k: "index_of ''season'' (dims g) = Some k"
    and c: "snd (axes r ! k) = [Str ''DJF'', Str ''MAM'', Str ''JJA'', Str ''SON'']"
    and v: "\<forall>i<4. \<forall>idx. idx ! k = i \<longrightarrow>
              (\<exists>p. index_of (season_order ! i) (snd (axes g ! k)) = Some p \<and>
                   vals r idx = vals g (idx[k := p]))"
    using g by auto
  have k1: "k = 1" using k by (simp add: dims_def ax)
  have "\<forall>idx. idx ! 1 = 1 \<longrightarrow> vals r idx = vals g (idx[1 := 2])"
  proof (intro allI impI)
    fix idx :: "nat list" assume "idx ! 1 = 1"
    then have ik: "idx ! k = 1" using k1 by simp
    have "(1::nat) < 4" by simp
    from v[rule_format, OF this ik] obtain p where
      "index_of (season_order ! 1) (snd (axes g ! 1)) = Some p"
      "vals r idx = vals g (idx[1 := p])" using k1 by auto
    then show "vals r idx = vals g (idx[1 := 2])" by (auto simp: ax season_order_def numeral_2_eq_2)
  qed
  then have "vals r [0, 1, 0, 1] = vals g ([0, 1, 0, 1][1 := 2])" by simp
  then show ?thesis using r g c k1 ax by simp
qed

section \<open>Dimensions and coordinates under reduction\<close>

lemma expand_cells:
  assumes "list_all2 (\<lambda>i s. i < snd s) idx (filter (\<lambda>s. \<not> fst s) spec)"
  shows "set (expand spec idx) =
           {j. list_all2 (\<lambda>i s. i < snd s) j spec \<and>
               map snd (filter (\<lambda>p. \<not> fst (fst p)) (zip spec j)) = idx}"
  using assms
proof (induction spec arbitrary: idx)
  case Nil
  then show ?case by auto
next
  case (Cons s spec)
  obtain red n where s: "s = (red, n)" by (cases s)
  show ?case
  proof (cases red)
    case True
    with Cons.prems s have "list_all2 (\<lambda>i s. i < snd s) idx (filter (\<lambda>s. \<not> fst s) spec)" by simp
    from Cons.IH[OF this] show ?thesis using True s
      by (auto simp: list_all2_Cons2)
  next
    case False
    with Cons.prems s obtain i0 rest where idx: "idx = i0 # rest" "i0 < n"
      and r: "list_all2 (\<lambda>i s. i < snd s) rest (filter (\<lambda>s. \<not> fst s) spec)"
      by (auto simp: list_all2_Cons2)
    from Cons.IH[OF r] show ?thesis using False s idx
      by (auto simp: list_all2_Cons2)
  qed
qed

lemma distinct_concat_cons:
  assumes "distinct xs" "distinct is"
  shows "distinct (concat (map (\<lambda>i. map ((#) i) xs) is))"
  using assms(2)
proof (induction "is")
  case Nil
  then show ?case by simp
next
  case (Cons i "is")
  then show ?case using assms(1) by (auto simp: distinct_map)
qed

lemma distinct_expand: "distinct (expand spec idx)"
proof (induction spec arbitrary: idx)
  case Nil
  then show ?case by simp
next
  case (Cons s spec)
  obtain red n where s: "s = (red, n)" by (cases s)
  show ?case using Cons.IH s
    by (cases red) (auto simp: distinct_concat_cons distinct_map split: list.splits)
qed

lemma map_of_filter_fst:
  "P d \<Longrightarrow> map_of (filter (\<lambda>ax. P (fst ax)) xs) d = map_of xs d"
  by (induction xs) auto

lemma reduce_Inr:
  assumes "reduce r ds a = Inr res"
  shows "set ds \<subseteq> set (dims a)"
    and "axes res = filter (\<lambda>ax. fst ax \<notin> set ds) (axes a)"
    and "vals res = (\<lambda>idx. apply_reducer r
                          (map (vals a)
                             (expand (map (\<lambda>ax. (fst ax \<in> set ds, length (snd ax))) (axes a)) idx)))"
    and "attrs res = []"
  using assms by (auto simp: reduce_def split: if_splits)

lemma reduce_cells:
  assumes "reduce r ds a = Inr res" and "in_bounds (axes res) idx"
  shows "set (expand (map (\<lambda>ax. (fst ax \<in> set ds, length (snd ax))) (axes a)) idx) =
           {j. in_bounds (axes a) j \<and>
               map snd (filter (\<lambda>p. fst (fst p) \<notin> set ds) (zip (axes a) j)) = idx}"
proof -
  let ?f = "\<lambda>ax::string \<times> label list. (fst ax \<in> set ds, length (snd ax))"
  have ax: "axes res = filter (\<lambda>ax. fst ax \<notin> set ds) (axes a)"
    using reduce_Inr(2)[OF assms(1)] .
  have "list_all2 (\<lambda>i s. i < snd s) idx (filter (\<lambda>s. \<not> fst s) (map ?f (axes a)))"
    using assms(2) by (simp add: in_bounds_def ax filter_map comp_def list_all2_map2)
  from expand_cells[OF this] show ?thesis
    by (simp add: in_bounds_def list_all2_map2 zip_map1 filter_map comp_def split_beta)
qed

text \<open>
  C4. A reduction by mean, standard deviation, minimum or maximum over named dimensions
  that returns yields an array whose dimensions are those of the input that were not
  reduced, in the same order, and whose coordinate labels on each of them are those of
  the input; the cell of the result at an index aggregates exactly the cells of the input
  that have this index on the retained dimensions.
\<close>

theorem reduce_dims_coords:
  assumes "reduce r ds a = Inr res"
  shows "dims res = filter (\<lambda>d. d \<notin> set ds) (dims a) \<and>
         set (dims res) = set (dims a) - set ds \<and>
         (\<forall>d \<in> set (dims res). map_of (axes res) d = map_of (axes a) d) \<and>
         (\<forall>idx. in_bounds (axes res) idx \<longrightarrow>
            (\<exists>cells. distinct cells \<and>
               set cells = {j. in_bounds (axes a) j \<and>
                  map snd (filter (\<lambda>p. fst (fst p) \<notin> set ds) (zip (axes a) j)) = idx} \<and>
               vals res idx = apply_reducer r (map (vals a) cells)))"
proof -
  have ax: "axes res = filter (\<lambda>ax. fst ax \<notin> set ds) (axes a)"
    using reduce_Inr(2)[OF assms] .
  have 1: "dims res = filter (\<lambda>d. d \<notin> set ds) (dims a)"
    by (simp add: dims_def ax filter_map comp_def)
  have 2: "set (dims res) = set (dims a) - set ds"
    unfolding 1 by auto
  have 3: "\<forall>d \<in> set (dims res). map_of (axes res) d = map_of (axes a) d"
  proof
    fix d assume "d \<in> set (dims res)"
    then have "d \<notin> set ds" using 2 by simp
    then show "map_of (axes res) d = map_of (axes a) d"
      unfolding ax by (rule map_of_filter_fst[where P = "\<lambda>d. d \<notin> set ds"])
  qed
  have 4: "\<forall>idx. in_bounds (axes res) idx \<longrightarrow>
            (\<exists>cells. distinct cells \<and>
               set cells = {j. in_bounds (axes a) j \<and>
                  map snd (filter (\<lambda>p. fst (fst p) \<notin> set ds) (zip (axes a) j)) = idx} \<and>
               vals res idx = apply_reducer r (map (vals a) cells))"
  proof (intro allI impI)
    fix idx assume ib: "in_bounds (axes res) idx"
    let ?cells = "expand (map (\<lambda>ax. (fst ax \<in> set ds, length (snd ax))) (axes a)) idx"
    have "vals res idx = apply_reducer r (map (vals a) ?cells)"
      by (simp add: reduce_Inr(3)[OF assms])
    with reduce_cells[OF assms ib] distinct_expand[of _ idx]
    show "\<exists>cells. distinct cells \<and>
               set cells = {j. in_bounds (axes a) j \<and>
                  map snd (filter (\<lambda>p. fst (fst p) \<notin> set ds) (zip (axes a) j)) = idx} \<and>
               vals res idx = apply_reducer r (map (vals a) cells)" by blast
  qed
  show ?thesis using 1 2 3 4 by blast
qed

lemma ex_t_mean:
  "getitem ex_ds ''t_mean'' =
     Inr \<lparr>axes = [(''time'', [Date 1984 1 15, Date 1984 4 15, Date 1984 7 31, Date 1984 10 15]),
                  (''lat'', [Num 30.25]), (''lon'', [Num (- 98.5), Num (- 97.75)]),
                  (''ensemble'', [Num 0, Num 1])],
           vals = (\<lambda>idx. if idx ! 2 = 0 then None
                           else if idx ! 3 = 0 then Some (- 2) else Some 3),
           attrs = []\<rparr>"
  by (simp add: getitem_def ex_ds_def labels_of_def)

theorem reduce_dims_coords_witness:
  "\<exists>a res. getitem ex_ds ''t_mean'' = Inr a \<and>
     reduce Maximum [''time'', ''ensemble''] a = Inr res \<and>
     dims a = [''time'', ''lat'', ''lon'', ''ensemble''] \<and>
     dims res = [''lat'', ''lon''] \<and>
     map_of (axes res) ''lon'' = Some [Num (- 98.5), Num (- 97.75)] \<and>
     in_bounds (axes res) [0, 1] \<and>
     (\<exists>cells. distinct cells \<and> [2, 0, 1, 0] \<in> set cells \<and> [2, 0, 0, 0] \<notin> set cells \<and>
        vals res [0, 1] = apply_reducer Maximum (map (vals a) cells))"
proof -
  obtain a where a: "getitem ex_ds ''t_mean'' = Inr a"
    and ax: "axes a = [(''time'', [Date 1984 1 15, Date 1984 4 15, Date 1984 7 31, Date 1984 10 15]),
                  (''lat'', [Num 30.25]), (''lon'', [Num (- 98.5), Num (- 97.75)]),
                  (''ensemble'', [Num 0, Num 1])]"
    using ex_t_mean by simp
  obtain res where res: "reduce Maximum [''time'', ''ensemble''] a = Inr res"
    by (simp add: reduce_def dims_def ax)
  have d: "dims a = [''time'', ''lat'', ''lon'', ''ensemble'']" by (simp add: dims_def ax)
  from reduce_dims_coords[OF res] have
    1: "dims res = [''lat'', ''lon'']"
    and 2: "\<forall>d \<in> set (dims res). map_of (axes res) d = map_of (axes a) d"
    and 3: "\<forall>idx. in_bounds (axes res) idx \<longrightarrow>
            (\<exists>cells. distinct cells \<and>
               set cells = {j. in_bounds (axes a) j \<and>
                  map snd (filter (\<lambda>p. fst (fst p) \<notin> set [''time'', ''ensemble'']) (zip (axes a) j)) = idx} \<and>
               vals res idx = apply_reducer Maximum (map (vals a) cells))"
    by (simp_all add: d)
  from 2 1 have lon: "map_of (axes res) ''lon'' = map_of (axes a) ''lon''" by simp
  have axr: "axes res = [(''lat'', [Num 30.25]), (''lon'', [Num (- 98.5), Num (- 97.75)])]"
    using reduce_Inr(2)[OF res] by (simp add: ax)
  have ib: "in_bounds (axes res) [0, 1]" by (simp add: axr in_bounds_def)
  from 3 ib obtain cells where c: "distinct cells"
    "set cells = {j. in_bounds (axes a) j \<and>
        map snd (filter (\<lambda>p. fst (fst p) \<notin> set [''time'', ''ensemble'']) (zip (axes a) j)) = [0, 1]}"
    "vals res [0, 1] = apply_reducer Maximum (map (vals a) cells)" by blast
  have "[2, 0, 1, 0] \<in> set cells" unfolding c(2) by (simp add: ax in_bounds_def)
  moreover have "[2, 0, 0, 0] \<notin> set cells" unfolding c(2) by (simp add: ax in_bounds_def)
  ultimately show ?thesis using a res d 1 lon ib c(1,3) by (auto simp: ax)
qed

lemma reduce_returns:
  assumes "set ds \<subseteq> set (dims a)"
    and "r = Minimum \<or> r = Maximum \<Longrightarrow> \<forall>ax \<in> set (axes a). fst ax \<in> set ds \<longrightarrow> snd ax \<noteq> []"
  shows "\<exists>res. reduce r ds a = Inr res"
  using assms by (auto simp: reduce_def)

section \<open>Selections that match nothing\<close>

lemma length_filter_mono:
  "(\<forall>x\<in>set xs. P x \<longrightarrow> Q x) \<Longrightarrow> length (filter P xs) \<le> length (filter Q xs)"
  by (induction xs) auto

lemma positions_of_absent: "l \<notin> set cs \<Longrightarrow> positions_of l cs = []"
  by (auto simp: positions_of_def filter_empty_conv)

lemma labels_of_restricted:
  assumes "map_of cs d = Some ls"
  shows "map_of (map (\<lambda>(n, l). if n = d then (n, f l) else (n, l)) cs) d = Some (f ls)"
  using assms by (induction cs) (auto split: if_splits)

lemma slice_locs_no_match:
  assumes "sorted xs" and "\<forall>x\<in>set xs. \<not> (lo \<le> x \<and> x \<le> hi)"
  shows "\<exists>s t. slice_locs xs lo hi = Inr (s, t) \<and> t \<le> s"
proof -
  have "\<forall>x\<in>set xs. x \<le> hi \<longrightarrow> x < lo" using assms(2) by auto
  from length_filter_mono[OF this] show ?thesis using assms(1) by (simp add: slice_locs_def)
qed

text \<open>
  C3 as amended. A selection by a literal label, or by a list of labels, fails with
  KeyError when a requested label is not among the entries of the coordinate. A selection
  by an inclusive range on an increasing coordinate that holds no entry of the range does
  not fail: it returns the dataset with that coordinate empty.
\<close>

theorem selection_without_match:
  "(\<forall>d l (a :: fval DataArray) k.
      index_of d (dims a) = Some k \<and> l \<notin> set (snd (axes a ! k))
      \<longrightarrow> sel_label d l a = Inl KeyError) \<and>
   (\<forall>d ls (a :: fval DataArray) k.
      index_of d (dims a) = Some k \<and> distinct (snd (axes a ! k)) \<and>
      (\<exists>l\<in>set ls. l \<notin> set (snd (axes a ! k)))
      \<longrightarrow> sel_list d ls a = Inl KeyError) \<and>
   (\<forall>d lo hi (ds :: Dataset) cs xs.
      map_of (coords ds) d = Some cs \<and> nums cs = Some xs \<and> sorted xs \<and>
      (\<forall>x\<in>set xs. \<not> (lo \<le> x \<and> x \<le> hi))
      \<longrightarrow> (\<exists>ds'. ds_sel_slice d lo hi ds = Inr ds' \<and> labels_of ds' d = []))"
proof (intro conjI allI impI)
  fix d l and a :: "fval DataArray" and k
  assume "index_of d (dims a) = Some k \<and> l \<notin> set (snd (axes a ! k))"
  then show "sel_label d l a = Inl KeyError"
    by (simp add: sel_label_def positions_of_absent)
next
  fix d ls and a :: "fval DataArray" and k
  assume "index_of d (dims a) = Some k \<and> distinct (snd (axes a ! k)) \<and>
      (\<exists>l\<in>set ls. l \<notin> set (snd (axes a ! k)))"
  then show "sel_list d ls a = Inl KeyError"
    by (auto simp: sel_list_def Let_def)
next
  fix d lo hi and ds :: Dataset and cs xs
  assume h: "map_of (coords ds) d = Some cs \<and> nums cs = Some xs \<and> sorted xs \<and>
      (\<forall>x\<in>set xs. \<not> (lo \<le> x \<and> x \<le> hi))"
  then obtain s t where st: "slice_locs xs lo hi = Inr (s, t)" "t \<le> s"
    using slice_locs_no_match[of xs lo hi] by blast
  have "map_of (map (\<lambda>(n, l). if n = d then (n, map ((!) l) []) else (n, l)) (coords ds)) d
          = Some (map ((!) cs) [])"
    using h by (intro labels_of_restricted) simp
  then show "\<exists>ds'. ds_sel_slice d lo hi ds = Inr ds' \<and> labels_of ds' d = []"
    using h st by (simp add: ds_sel_slice_def bindE_def labels_of_def)
qed

lemma ex_far_lon: "map_of (coords ex_far) ''lon'' = Some [Num 10, Num 20]"
  by (simp add: ex_far_def)

theorem selection_without_match_witness:
  "sel_label ''time'' (Date 1999 12 31) (projr (getitem ex_ds ''t_mean'')) = Inl KeyError \<and>
   sel_list ''lon'' [Num 0] (projr (getitem ex_ds ''t_mean'')) = Inl KeyError \<and>
   labels_of (projr (ds_sel_slice ''lon'' (- 97.7431 - buf) (- 97.7431 + buf) ex_far)) ''lon'' = []"
proof -
  let ?a = "projr (getitem ex_ds ''t_mean'')"
  have ax: "axes ?a = [(''time'', [Date 1984 1 15, Date 1984 4 15, Date 1984 7 31, Date 1984 10 15]),
                  (''lat'', [Num 30.25]), (''lon'', [Num (- 98.5), Num (- 97.75)]),
                  (''ensemble'', [Num 0, Num 1])]"
    by (simp add: ex_t_mean)
  have 1: "index_of ''time'' (dims ?a) = Some 0 \<and> Date 1999 12 31 \<notin> set (snd (axes ?a ! 0))"
    by (simp add: dims_def ax)
  have 2: "index_of ''lon'' (dims ?a) = Some 2 \<and> distinct (snd (axes ?a ! 2)) \<and>
      (\<exists>l\<in>set [Num 0]. l \<notin> set (snd (axes ?a ! 2)))"
    by (simp add: dims_def ax)
  have 3: "map_of (coords ex_far) ''lon'' = Some [Num 10, Num 20] \<and>
      nums [Num 10, Num 20] = Some [10, 20] \<and> sorted [10, 20 :: real] \<and>
      (\<forall>x\<in>set [10, 20 :: real]. \<not> (- 97.7431 - buf \<le> x \<and> x \<le> - 97.7431 + buf))"
    by (simp add: ex_far_lon buf_def)
  from selection_without_match 1 have a: "sel_label ''time'' (Date 1999 12 31) ?a = Inl KeyError"
    by blast
  from selection_without_match 2 have b: "sel_list ''lon'' [Num 0] ?a = Inl KeyError"
    by blast
  from selection_without_match 3 obtain ds' where
    "ds_sel_slice ''lon'' (- 97.7431 - buf) (- 97.7431 + buf) ex_far = Inr ds'"
    "labels_of ds' ''lon'' = []" by blast
  then show ?thesis using a b by simp
qed

text \<open>
  C3 as stated fails: on a grid whose longitudes are 10 and 20 the Austin box holds no
  entry, and the selection returns a dataset with an empty longitude coordinate, in which
  the precipitation has shape (2, 4, 1, 0).
\<close>

theorem ds_tx_empty_counterexample:
  "nums (labels_of ex_far ''lon'') = Some [10, 20] \<and>
   \<not> (- 97.7431 - buf \<le> 10 \<and> 10 \<le> - 97.7431 + buf) \<and>
   \<not> (- 97.7431 - buf \<le> 20 \<and> 20 \<le> - 97.7431 + buf) \<and>
   \<not> isl (ds_tx ex_far) \<and>
   labels_of (projr (ds_tx ex_far)) ''lon'' = [] \<and>
   \<not> isl (getitem (projr (ds_tx ex_far)) ''pcp'') \<and>
   shape (projr (getitem (projr (ds_tx ex_far)) ''pcp'')) = [2, 4, 1, 0]"
  by (simp add: ds_tx_def ds_sel_slice_def ex_far_def ex_ds_def labels_of_def buf_def
        slice_locs_def bindE_def getitem_def shape_def var_take_def Let_def)

section \<open>The annual maximum near Austin\<close>

lemma map_of_map_snd: "map_of (map (\<lambda>(n, v). (n, f v)) xs) k = map_option f (map_of xs k)"
  by (induction xs) auto

lemma map_of_restrict_other:
  "d' \<noteq> d \<Longrightarrow> map_of (map (\<lambda>(n, l). if n = d then (n, f l) else (n, l)) cs) d' = map_of cs d'"
  by (induction cs) auto

lemma vdims_var_take: "vdims (var_take d ps v) = vdims v"
  by (simp add: var_take_def split: option.splits)

lemma ds_sel_slice_Inr:
  assumes "ds_sel_slice d lo hi ds = Inr ds'"
  shows "\<forall>d'. d' \<noteq> d \<longrightarrow> labels_of ds' d' = labels_of ds d'"
    and "\<forall>name. map_option vdims (map_of (data_vars ds') name) = map_option vdims (map_of (data_vars ds) name)"
proof -
  from assms obtain ls where ls: "map_of (coords ds) d = Some ls"
    by (cases "map_of (coords ds) d") (simp_all add: ds_sel_slice_def)
  from assms ls obtain xs where xs: "nums ls = Some xs"
    by (cases "nums ls") (simp_all add: ds_sel_slice_def)
  from assms ls xs obtain st where st: "slice_locs xs lo hi = Inr st"
    by (cases "slice_locs xs lo hi") (simp_all add: ds_sel_slice_def bindE_def)
  obtain s t where st2: "st = (s, t)" by (cases st)
  define ps where "ps = [s..<t]"
  have ds': "ds' = ds\<lparr>coords := map (\<lambda>(n, l). if n = d then (n, map ((!) l) ps) else (n, l)) (coords ds),
                            data_vars := map (\<lambda>(n, v). (n, var_take d ps v)) (data_vars ds)\<rparr>"
    using assms ls xs st st2 unfolding ps_def
    by (auto simp add: ds_sel_slice_def bindE_def Let_def)
  show "\<forall>d'. d' \<noteq> d \<longrightarrow> labels_of ds' d' = labels_of ds d'"
    by (simp add: ds' labels_of_def map_of_restrict_other)
  show "\<forall>name. map_option vdims (map_of (data_vars ds') name) = map_option vdims (map_of (data_vars ds) name)"
    by (simp add: ds' map_of_map_snd option.map_comp comp_def vdims_var_take)
qed

lemma getitem_Inr:
  assumes "getitem ds name = Inr a"
  shows "\<exists>v. map_of (data_vars ds) name = Some v \<and>
             axes a = map (\<lambda>d. (d, labels_of ds d)) (vdims v) \<and> vals a = vdata v \<and> dims a = vdims v"
  using assms by (auto simp: getitem_def dims_def comp_def split: option.splits)

lemma ds_tx_Inr:
  assumes "ds_tx ds = Inr tx"
  shows "labels_of tx ''time'' = labels_of ds ''time''"
    and "\<forall>name. map_option vdims (map_of (data_vars tx) name) = map_option vdims (map_of (data_vars ds) name)"
proof -
  from bindE_Inr[OF assms[unfolded ds_tx_def]] obtain d1 where
    1: "ds_sel_slice ''lon'' (- 97.7431 - buf) (- 97.7431 + buf) ds = Inr d1"
    and 2: "ds_sel_slice ''lat'' (30.2672 - buf) (30.2672 + buf) d1 = Inr tx" by blast
  show "labels_of tx ''time'' = labels_of ds ''time''"
    using ds_sel_slice_Inr(1)[OF 1] ds_sel_slice_Inr(1)[OF 2] by simp
  show "\<forall>name. map_option vdims (map_of (data_vars tx) name) = map_option vdims (map_of (data_vars ds) name)"
    using ds_sel_slice_Inr(2)[OF 1] ds_sel_slice_Inr(2)[OF 2] by simp
qed

lemma map_of_update_first:
  "index_of d (map fst ax) = Some k \<Longrightarrow> map_of (ax[k := (d, L)]) d = Some L"
proof (induction ax arbitrary: k)
  case Nil
  then show ?case by simp
next
  case (Cons a ax)
  then show ?case by (cases k) (auto split: if_splits)
qed

lemma index_of_map_labels:
  "index_of d ds = Some k \<Longrightarrow> map (\<lambda>d. (d, f d)) ds ! k = (d, f d)"
  using index_of_Some[of d ds k] by simp

lemma resample_cases:
  assumes "resample d f r a = Inr res"
  shows "\<exists>k ts. index_of d (dims a) = Some k \<and> dates (snd (axes a ! k)) = Some ts \<and>
           sorted (map day_key ts) \<and> ts \<noteq> [] \<and>
           \<not> list_ex (\<lambda>q. date_of (bucket_label f q) = None)
                 [bucket f (hd ts)..bucket f (last ts)] \<and>
           res = \<lparr>axes = (axes a)[k := (d, map (bucket_label f)
                                            [bucket f (hd ts)..bucket f (last ts)])],
                  vals = (\<lambda>idx.
                    let ms = filter (\<lambda>j. map (bucket f) ts ! j =
                                          [bucket f (hd ts)..bucket f (last ts)] ! (idx ! k))
                                    [0..<length ts]
                    in if ms = [] then None
                       else apply_reducer r (map (\<lambda>j. vals a (idx[k := j])) ms)),
                  attrs = []\<rparr>"
proof -
  from assms obtain k where k: "index_of d (dims a) = Some k"
    by (cases "index_of d (dims a)") (simp_all add: resample_def)
  from assms k obtain ts where ts: "dates (snd (axes a ! k)) = Some ts"
    by (cases "dates (snd (axes a ! k))") (simp_all add: resample_def)
  from assms k ts have so: "sorted (map day_key ts)"
    by (simp add: resample_def split: if_splits)
  from assms k ts so have ne: "ts \<noteq> []"
    by (simp add: resample_def split: if_splits)
  from assms k ts so ne have ok: "\<not> list_ex (\<lambda>q. date_of (bucket_label f q) = None)
                 [bucket f (hd ts)..bucket f (last ts)]"
    by (simp add: resample_def Let_def hd_map last_map split: if_splits)
  from assms k ts so ne ok have "res = \<lparr>axes = (axes a)[k := (d, map (bucket_label f)
                                            [bucket f (hd ts)..bucket f (last ts)])],
                  vals = (\<lambda>idx.
                    let ms = filter (\<lambda>j. map (bucket f) ts ! j =
                                          [bucket f (hd ts)..bucket f (last ts)] ! (idx ! k))
                                    [0..<length ts]
                    in if ms = [] then None
                       else apply_reducer r (map (\<lambda>j. vals a (idx[k := j])) ms)),
                  attrs = []\<rparr>"
    by (simp add: resample_def Let_def hd_map last_map del: apply_reducer.simps)
  with k ts so ne ok show ?thesis by blast
qed

lemma resample_Inr:
  assumes "resample d f r a = Inr res"
  shows "\<exists>k ts. index_of d (dims a) = Some k \<and> dates (snd (axes a ! k)) = Some ts \<and>
           sorted (map day_key ts) \<and>
           axes res = (axes a)[k := (d, map (bucket_label f)
                                       (if ts = [] then [] else [bucket f (hd ts)..bucket f (last ts)]))]"
proof -
  from resample_cases[OF assms] obtain k ts where
    "index_of d (dims a) = Some k" "dates (snd (axes a ! k)) = Some ts"
    "sorted (map day_key ts)" "ts \<noteq> []"
    "axes res = (axes a)[k := (d, map (bucket_label f) [bucket f (hd ts)..bucket f (last ts)])]"
    by force
  then show ?thesis by auto
qed

lemma dims_update_same:
  "index_of d (map fst ax) = Some k \<Longrightarrow> map fst (ax[k := (d, L)]) = map fst ax"
  using index_of_Some[of d "map fst ax" k] by (simp add: map_update) (metis list_update_id)


lemma dates_valid:
  "dates ls = Some ts \<Longrightarrow> \<forall>t\<in>set ts. 1 \<le> fst (snd t) \<and> fst (snd t) \<le> 12 \<and> 1 \<le> snd (snd t) \<and> snd (snd t) \<le> 31"
proof (induction ls arbitrary: ts)
  case Nil
  then show ?case by simp
next
  case (Cons l ls)
  then show ?case
    by (cases l) (fastforce split: if_splits option.splits)+
qed

lemma day_key_year:
  assumes "day_key t \<le> day_key t'"
    and "1 \<le> fst (snd t) \<and> fst (snd t) \<le> 12 \<and> 1 \<le> snd (snd t) \<and> snd (snd t) \<le> 31"
    and "1 \<le> fst (snd t') \<and> fst (snd t') \<le> 12 \<and> 1 \<le> snd (snd t') \<and> snd (snd t') \<le> 31"
  shows "fst t \<le> fst t'"
proof -
  obtain y m d where t: "t = (y, m, d)" by (cases t)
  obtain y' m' d' where t': "t' = (y', m', d')" by (cases t')
  from assms show ?thesis unfolding t t' day_key_def by simp
qed

lemma sorted_hd_le: "sorted xs \<Longrightarrow> x \<in> set xs \<Longrightarrow> hd xs \<le> x"
  by (cases xs) auto

lemma sorted_le_last: "sorted xs \<Longrightarrow> x \<in> set xs \<Longrightarrow> x \<le> last xs"
  by (induction xs) (auto split: if_splits)

lemma count_list_distinct: "distinct xs \<Longrightarrow> x \<in> set xs \<Longrightarrow> count_list xs x = 1"
  by (induction xs) auto

lemma bucket_AS: "bucket AS t = fst t"
  by (cases t) simp

lemma year_in_range:
  assumes "dates ls = Some ts" "sorted (map day_key ts)" "t \<in> set ts"
  shows "fst (hd ts) \<le> fst t \<and> fst t \<le> fst (last ts)"
proof -
  have ne: "ts \<noteq> []" using assms(3) by auto
  have v: "\<forall>t\<in>set ts. 1 \<le> fst (snd t) \<and> fst (snd t) \<le> 12 \<and> 1 \<le> snd (snd t) \<and> snd (snd t) \<le> 31"
    using dates_valid[OF assms(1)] .
  have h: "hd ts \<in> set ts" and l: "last ts \<in> set ts" using ne by simp_all
  have "hd (map day_key ts) \<le> day_key t"
    using sorted_hd_le[OF assms(2), of "day_key t"] assms(3) by simp
  then have 1: "day_key (hd ts) \<le> day_key t" using ne by (simp add: hd_map)
  have "day_key t \<le> last (map day_key ts)"
    using sorted_le_last[OF assms(2), of "day_key t"] assms(3) by simp
  then have 2: "day_key t \<le> day_key (last ts)" using ne by (simp add: last_map)
  show ?thesis
    using day_key_year[OF 1] day_key_year[OF 2] v h l assms(3) by blast
qed


text \<open>
  C1 as amended. For the Austin analysis (the box of 0.25 degrees around 30.2672, -97.7431,
  the annual maximum of precipitation, then the maximum over latitude and longitude), the
  result has every dimension of the precipitation variable other than latitude and
  longitude: the time dimension and, when the variable has one, the ensemble dimension.
  Its time coordinate holds 1 January of every year from the year of the first day to the
  year of the last day of the data, so exactly one label for every year in which the data
  has a day.
\<close>

theorem pcp_ann_max_ts_years:
  assumes "pcp_ann_max_ts ds = Inr r"
  shows "\<exists>p ts. getitem ds ''pcp'' = Inr p \<and> dates (labels_of ds ''time'') = Some ts \<and>
           dims r = filter (\<lambda>d. d \<noteq> ''lat'' \<and> d \<noteq> ''lon'') (dims p) \<and>
           ''time'' \<in> set (dims r) \<and>
           map_of (axes r) ''time'' =
             Some (if ts = [] then [] else map (\<lambda>y. Date y 1 1) [fst (hd ts)..fst (last ts)]) \<and>
           (\<forall>t\<in>set ts. \<exists>labels. map_of (axes r) ''time'' = Some labels \<and>
                             count_list labels (Date (fst t) 1 1) = 1)"
proof -
  from bindE_Inr[OF assms[unfolded pcp_ann_max_ts_def]] obtain a where
    a: "pcp_ann_max ds = Inr a"
    and 1: "bindE (reduce Maximum [''lat'', ''lon''] a) (\<lambda>r. Inr (persist r)) = Inr r" by blast
  from bindE_Inr[OF 1] have red: "reduce Maximum [''lat'', ''lon''] a = Inr r"
    by (auto simp: persist_def)
  from bindE_Inr[OF a[unfolded pcp_ann_max_def]] obtain tx where
    tx: "ds_tx ds = Inr tx"
    and 2: "bindE (getitem tx ''pcp'') (resample ''time'' AS Maximum) = Inr a" by blast
  from bindE_Inr[OF 2] obtain p' where
    p': "getitem tx ''pcp'' = Inr p'" and rs: "resample ''time'' AS Maximum p' = Inr a" by blast
  from getitem_Inr[OF p'] obtain v' where
    v': "map_of (data_vars tx) ''pcp'' = Some v'"
    "axes p' = map (\<lambda>d. (d, labels_of tx d)) (vdims v')" "dims p' = vdims v'" by blast
  have "map_option vdims (map_of (data_vars ds) ''pcp'') = Some (vdims v')"
    using ds_tx_Inr(2)[OF tx, rule_format, of "''pcp''"] v'(1) by simp
  then obtain v where
    v: "map_of (data_vars ds) ''pcp'' = Some v" "vdims v = vdims v'"
    by (cases "map_of (data_vars ds) ''pcp''") auto
  define p where "p = \<lparr>axes = map (\<lambda>d. (d, labels_of ds d)) (vdims v),
                       vals = vdata v, attrs = vattrs v\<rparr>"
  have p: "getitem ds ''pcp'' = Inr p" by (simp add: getitem_def v(1) p_def)
  have dp: "dims p = dims p'" by (simp add: p_def dims_def comp_def v'(3)[unfolded dims_def] v(2) v'(2))
  from resample_Inr[OF rs] obtain k ts where
    k: "index_of ''time'' (dims p') = Some k"
    and ts: "dates (snd (axes p' ! k)) = Some ts"
    and so: "sorted (map day_key ts)"
    and axa: "axes a = (axes p')[k := (''time'', map (bucket_label AS)
                 (if ts = [] then [] else [bucket AS (hd ts)..bucket AS (last ts)]))]" by blast
  define labels where
    "labels = (if ts = [] then [] else map (\<lambda>y. Date y 1 1) [fst (hd ts)..fst (last ts)])"
  have axa': "axes a = (axes p')[k := (''time'', labels)]"
    unfolding axa labels_def by (simp add: bucket_AS cong: map_cong)
  have "axes p' ! k = (''time'', labels_of tx ''time'')"
    using index_of_map_labels[of "''time''" "vdims v'" k "labels_of tx"] k v' by simp
  then have ts': "dates (labels_of ds ''time'') = Some ts"
    using ts ds_tx_Inr(1)[OF tx] by simp
  have k': "index_of ''time'' (map fst (axes p')) = Some k" using k by (simp add: dims_def)
  have da: "dims a = dims p'" unfolding dims_def axa' by (rule dims_update_same[OF k'])
  have axr: "axes r = filter (\<lambda>ax. fst ax \<notin> set [''lat'', ''lon'']) (axes a)"
    using reduce_Inr(2)[OF red] .
  have dr: "dims r = filter (\<lambda>d. d \<noteq> ''lat'' \<and> d \<noteq> ''lon'') (dims p)"
    unfolding dp da[symmetric] by (simp add: dims_def axr filter_map comp_def)
  have "''time'' \<in> set (dims p)" using index_of_Some[OF k] dp by (metis nth_mem)
  then have tr: "''time'' \<in> set (dims r)" unfolding dr by simp
  have "map_of (axes r) ''time'' = map_of (axes a) ''time''"
    unfolding axr by (rule map_of_filter_fst[where P = "\<lambda>d. d \<notin> set [''lat'', ''lon'']"]) simp
  also have "\<dots> = Some labels" unfolding axa' by (rule map_of_update_first[OF k'])
  finally have ml: "map_of (axes r) ''time'' = Some labels" .
  have cnt: "\<forall>t\<in>set ts. count_list labels (Date (fst t) 1 1) = 1"
  proof
    fix t assume t: "t \<in> set ts"
    then have ne: "ts \<noteq> []" by auto
    from year_in_range[OF ts' so t] have "fst t \<in> set [fst (hd ts)..fst (last ts)]" by simp
    then have "Date (fst t) 1 1 \<in> set labels" using ne by (simp add: labels_def)
    moreover have "distinct labels"
      by (simp add: labels_def distinct_map inj_on_def)
    ultimately show "count_list labels (Date (fst t) 1 1) = 1" by (rule count_list_distinct[rotated])
  qed
  show ?thesis using p ts' dr tr ml cnt unfolding labels_def by blast
qed


text \<open>
  C1 as stated fails for a precipitation variable with an ensemble dimension: the result
  has the two dimensions (ensemble, time), here with two members and the three years
  1984 to 1986.
\<close>

lemmas austin_defs =
  pcp_ann_max_ts_def pcp_ann_max_def ds_tx_def ds_sel_slice_def ex_years_def ex_ds_def
  labels_of_def buf_def slice_locs_def bindE_def getitem_def var_take_def Let_def
  resample_def reduce_def dims_def shape_def persist_def day_key_def representable_def

theorem pcp_ann_max_ts_two_dims_counterexample:
  "\<not> isl (pcp_ann_max_ts ex_years) \<and>
   dims (projr (pcp_ann_max_ts ex_years)) = [''ensemble'', ''time''] \<and>
   shape (projr (pcp_ann_max_ts ex_years)) = [2, 3]"
  by (simp add: austin_defs upto_rec1)

theorem pcp_ann_max_ts_years_witness:
  "\<exists>r. pcp_ann_max_ts ex_years = Inr r \<and>
     dims r = [''ensemble'', ''time''] \<and>
     map_of (axes r) ''time'' = Some [Date 1984 1 1, Date 1985 1 1, Date 1986 1 1]"
proof -
  obtain r where r: "pcp_ann_max_ts ex_years = Inr r"
    by (simp add: austin_defs upto_rec1)
  have p: "getitem ex_years ''pcp'' =
     Inr \<lparr>axes = [(''ensemble'', [Num 0, Num 1]), (''time'', [Date 1984 7 31, Date 1986 1 10]),
                  (''lat'', [Num 30.25]), (''lon'', [Num (- 98.5), Num (- 97.75)])],
           vals = (\<lambda>idx. Some (real (idx ! 1) + 1)), attrs = []\<rparr>"
    by (simp add: getitem_def ex_years_def ex_ds_def labels_of_def)
  have t: "dates (labels_of ex_years ''time'') = Some [(1984, 7, 31), (1986, 1, 10)]"
    by (simp add: ex_years_def labels_of_def representable_def day_key_def)
  from pcp_ann_max_ts_years[OF r] show ?thesis using r
    by (simp add: p t dims_def upto_rec1)
qed

section \<open>The single-day uncertainty\<close>

lemma expand_last_axis:
  "expand [(False, n1), (False, n2), (True, n3)] [a, b] = map (\<lambda>e. [a, b, e]) [0..<n3]"
  by (simp add: map_concat comp_def)

lemma avg_nonneg: "(\<forall>x\<in>set xs. 0 \<le> x) \<Longrightarrow> 0 \<le> avg xs"
  by (simp add: avg_def sum_list_nonneg)

lemma std_nonneg: "apply_reducer Std vs = Some x \<Longrightarrow> 0 \<le> x"
  by (auto simp: Let_def avg_nonneg split: if_splits)

lemma present_empty_iff: "present vs = [] \<longleftrightarrow> (\<forall>v\<in>set vs. v = None)"
  by (induction vs) (auto simp: present_def split: option.splits)

lemma std_None_iff: "apply_reducer Std vs = None \<longleftrightarrow> (\<forall>v\<in>set vs. v = None)"
  by (simp add: Let_def present_empty_iff)

lemma mean_None_iff: "apply_reducer Mean vs = None \<longleftrightarrow> (\<forall>v\<in>set vs. v = None)"
  by (simp add: Let_def present_empty_iff)


lemma uncertainty_steps:
  assumes t: "getitem ds ''t_mean'' = Inr t"
    and d: "dims t = [''time'', ''lat'', ''lon'', ''ensemble'']"
    and i: "positions_of (Date 1984 7 31) (labels_of ds ''time'') = [i]"
  shows "\<exists>r. temp_std_errors ds = Inr r \<and>
           axes r = [(''lat'', labels_of ds ''lat''), (''lon'', labels_of ds ''lon'')] \<and>
           (\<forall>a b. vals r [a, b] =
              apply_reducer Std
                (map (\<lambda>e. sub_fval (vals t [i, a, b, e])
                        (apply_reducer Mean
                           (map (\<lambda>e. vals t [i, a, b, e]) [0..<length (labels_of ds ''ensemble'')])))
                   [0..<length (labels_of ds ''ensemble'')]))"
proof -
  from getitem_Inr[OF t] obtain v :: Variable where
    v: "axes t = map (\<lambda>d. (d, labels_of ds d)) (vdims v)" "dims t = vdims v" by blast
  have "vdims v = [''time'', ''lat'', ''lon'', ''ensemble'']" using v(2) d by simp
  then have ax:
    "axes t = [(''time'', labels_of ds ''time''), (''lat'', labels_of ds ''lat''),
               (''lon'', labels_of ds ''lon''), (''ensemble'', labels_of ds ''ensemble'')]"
    using v(1) by simp
  define T where "T = t\<lparr>axes := [(''lat'', labels_of ds ''lat''),
               (''lon'', labels_of ds ''lon''), (''ensemble'', labels_of ds ''ensemble'')],
               vals := (\<lambda>idx. vals t (i # idx))\<rparr>"
  have T: "temp ds = Inr T"
    by (simp add: temp_def t bindE_def sel_label_def d ax i remove_at_def insert_at_def T_def)
  define M where "M = \<lparr>axes = [(''lat'', labels_of ds ''lat''), (''lon'', labels_of ds ''lon'')],
      vals = (\<lambda>idx. apply_reducer Mean (map (vals T)
                (expand [(False, length (labels_of ds ''lat'')), (False, length (labels_of ds ''lon'')),
                         (True, length (labels_of ds ''ensemble''))] idx))),
      attrs = []\<rparr>"
  have M: "temp_ens_mean ds = Inr M"
    by (simp add: temp_ens_mean_def T bindE_def reduce_def dims_def T_def M_def)
  define E where "E = binop sub_fval T M"
  have E: "temp_errors ds = Inr E"
    by (simp add: temp_errors_def T M bindE_def E_def)
  have axE: "axes E = axes T"
    by (simp add: E_def binop_def Let_def out_axes_def T_def M_def joined_def)
  have vE: "\<And>a b e. vals E [a, b, e] = sub_fval (vals T [a, b, e]) (vals M [a, b])"
    by (simp add: E_def binop_def Let_def out_axes_def T_def M_def joined_def pull_def src_pos_def)
  define R where "R = \<lparr>axes = [(''lat'', labels_of ds ''lat''), (''lon'', labels_of ds ''lon'')],
      vals = (\<lambda>idx. apply_reducer Std (map (vals E)
                (expand [(False, length (labels_of ds ''lat'')), (False, length (labels_of ds ''lon'')),
                         (True, length (labels_of ds ''ensemble''))] idx))),
      attrs = []\<rparr>"
  have R: "temp_std_errors ds = Inr R"
    by (simp add: temp_std_errors_def E bindE_def reduce_def dims_def axE T_def R_def)
  have "\<And>a b. vals R [a, b] =
              apply_reducer Std
                (map (\<lambda>e. sub_fval (vals t [i, a, b, e])
                        (apply_reducer Mean
                           (map (\<lambda>e. vals t [i, a, b, e]) [0..<length (labels_of ds ''ensemble'')])))
                   [0..<length (labels_of ds ''ensemble'')])"
    unfolding R_def by (simp add: expand_last_axis comp_def vE) (simp add: M_def expand_last_axis comp_def T_def)
  then show ?thesis using R by (simp add: R_def)
qed


lemma sub_fval_None_iff: "sub_fval x y = None \<longleftrightarrow> x = None \<or> y = None"
  by (simp add: sub_fval_def split: option.splits)

lemma std_of_errors_None_iff:
  "apply_reducer Std (map (\<lambda>e. sub_fval (X e) (apply_reducer Mean (map X [0..<n]))) [0..<n]) = None
   \<longleftrightarrow> (\<forall>e<n. X e = None)"
proof -
  have m: "apply_reducer Mean (map X [0..<n]) = None \<longleftrightarrow> (\<forall>e<n. X e = None)"
    unfolding mean_None_iff by auto
  show ?thesis
    unfolding std_None_iff by (auto simp add: sub_fval_None_iff m simp del: apply_reducer.simps)
qed

lemma in_bounds_two:
  "in_bounds [p, q] idx \<Longrightarrow> idx = [idx ! 0, idx ! 1]"
  by (auto simp: in_bounds_def list_all2_Cons2)

text \<open>
  C2 as amended. With a mean temperature over (time, lat, lon, ensemble) whose time
  coordinate holds 31 July 1984 once, the single-day analysis returns an array with
  dimensions exactly (lat, lon). Every value that is not missing is at least 0, and a cell
  is missing exactly when every ensemble member is missing there on that day.
\<close>

theorem temp_std_errors_nonneg:
  assumes "getitem ds ''t_mean'' = Inr t"
    and "dims t = [''time'', ''lat'', ''lon'', ''ensemble'']"
    and "positions_of (Date 1984 7 31) (labels_of ds ''time'') = [i]"
  shows "\<exists>r. temp_std_errors ds = Inr r \<and> dims r = [''lat'', ''lon''] \<and>
           (\<forall>idx. in_bounds (axes r) idx \<longrightarrow>
              (\<forall>x. vals r idx = Some x \<longrightarrow> 0 \<le> x) \<and>
              (vals r idx = None \<longleftrightarrow>
                 (\<forall>e<length (labels_of ds ''ensemble''). vals t [i, idx ! 0, idx ! 1, e] = None)))"
proof -
  from uncertainty_steps[OF assms] obtain r where
    r: "temp_std_errors ds = Inr r"
    and ax: "axes r = [(''lat'', labels_of ds ''lat''), (''lon'', labels_of ds ''lon'')]"
    and v: "\<And>a b. vals r [a, b] =
              apply_reducer Std
                (map (\<lambda>e. sub_fval (vals t [i, a, b, e])
                        (apply_reducer Mean
                           (map (\<lambda>e. vals t [i, a, b, e]) [0..<length (labels_of ds ''ensemble'')])))
                   [0..<length (labels_of ds ''ensemble'')])" by blast
  have "\<forall>idx. in_bounds (axes r) idx \<longrightarrow>
              (\<forall>x. vals r idx = Some x \<longrightarrow> 0 \<le> x) \<and>
              (vals r idx = None \<longleftrightarrow>
                 (\<forall>e<length (labels_of ds ''ensemble''). vals t [i, idx ! 0, idx ! 1, e] = None))"
  proof (intro allI impI)
    fix idx assume "in_bounds (axes r) idx"
    then have idx: "idx = [idx ! 0, idx ! 1]" unfolding ax by (rule in_bounds_two)
    have 1: "\<forall>x. vals r idx = Some x \<longrightarrow> 0 \<le> x"
      using v[of "idx ! 0" "idx ! 1"] idx std_nonneg by metis
    have 2: "vals r idx = None \<longleftrightarrow>
                 (\<forall>e<length (labels_of ds ''ensemble''). vals t [i, idx ! 0, idx ! 1, e] = None)"
      using v[of "idx ! 0" "idx ! 1"] idx
        std_of_errors_None_iff[of "\<lambda>e. vals t [i, idx ! 0, idx ! 1, e]"
          "length (labels_of ds ''ensemble'')"]
      by metis
    show "(\<forall>x. vals r idx = Some x \<longrightarrow> 0 \<le> x) \<and>
              (vals r idx = None \<longleftrightarrow>
                 (\<forall>e<length (labels_of ds ''ensemble''). vals t [i, idx ! 0, idx ! 1, e] = None))"
      using 1 2 by blast
  qed
  then show ?thesis using r ax by (auto simp: dims_def)
qed

lemma ex_day: "positions_of (Date 1984 7 31) (labels_of ex_ds ''time'') = [2]"
  by (simp add: positions_of_def labels_of_def ex_ds_def upt_rec_numeral)

lemma ex_t_mean_dims: "dims (projr (getitem ex_ds ''t_mean'')) = [''time'', ''lat'', ''lon'', ''ensemble'']"
  by (simp add: ex_t_mean dims_def)

theorem temp_std_errors_nonneg_witness:
  "\<exists>r. temp_std_errors ex_ds = Inr r \<and> dims r = [''lat'', ''lon''] \<and>
     in_bounds (axes r) [0, 0] \<and> in_bounds (axes r) [0, 1] \<and>
     vals r [0, 0] = None \<and> (\<exists>x. vals r [0, 1] = Some x \<and> 0 \<le> x)"
proof -
  let ?t = "projr (getitem ex_ds ''t_mean'')"
  have t: "getitem ex_ds ''t_mean'' = Inr ?t" by (simp add: ex_t_mean)
  have vt: "vals ?t = (\<lambda>idx. if idx ! 2 = 0 then None
                           else if idx ! 3 = 0 then Some (- 2) else Some 3)"
    by (simp add: ex_t_mean)
  from temp_std_errors_nonneg[OF t ex_t_mean_dims ex_day] obtain r where
    r: "temp_std_errors ex_ds = Inr r" and d: "dims r = [''lat'', ''lon'']"
    and v: "\<forall>idx. in_bounds (axes r) idx \<longrightarrow>
              (\<forall>x. vals r idx = Some x \<longrightarrow> 0 \<le> x) \<and>
              (vals r idx = None \<longleftrightarrow>
                 (\<forall>e<length (labels_of ex_ds ''ensemble''). vals ?t [2, idx ! 0, idx ! 1, e] = None))"
    by blast
  from uncertainty_steps[OF t ex_t_mean_dims ex_day] r have
    ax: "axes r = [(''lat'', labels_of ex_ds ''lat''), (''lon'', labels_of ex_ds ''lon'')]" by auto
  have b0: "in_bounds (axes r) [0, 0]" and b1: "in_bounds (axes r) [0, 1]"
    by (simp_all add: ax in_bounds_def labels_of_def ex_ds_def)
  have n: "length (labels_of ex_ds ''ensemble'') = 2" by (simp add: labels_of_def ex_ds_def)
  have n0: "vals r [0, 0] = None" using v b0 by (simp add: vt)
  have "vals ?t [2, 0, 1, 0] \<noteq> None" by (simp add: vt)
  then have "\<not> (\<forall>e<length (labels_of ex_ds ''ensemble''). vals ?t [2, [0, 1] ! 0, [0, 1] ! 1, e] = None)"
    unfolding n by (intro notI) simp
  then have "vals r [0, 1] \<noteq> None" using v[rule_format, OF b1] by blast
  then obtain x where x: "vals r [0, 1] = Some x" by auto
  then have "0 \<le> x" using v b1 by blast
  then show ?thesis using r d b0 b1 n0 x by blast
qed

text \<open>
  C2 as stated fails on the values: at the cell where every member is missing the standard
  deviation is missing, not a number that is at least 0.
\<close>

theorem temp_std_errors_missing_counterexample:
  "\<not> isl (temp_std_errors ex_ds) \<and>
   in_bounds (axes (projr (temp_std_errors ex_ds))) [0, 0] \<and>
   vals (projr (temp_std_errors ex_ds)) [0, 0] = None"
proof -
  let ?t = "projr (getitem ex_ds ''t_mean'')"
  have t: "getitem ex_ds ''t_mean'' = Inr ?t" by (simp add: ex_t_mean)
  from uncertainty_steps[OF t ex_t_mean_dims ex_day] obtain r where
    r: "temp_std_errors ex_ds = Inr r"
    and ax: "axes r = [(''lat'', labels_of ex_ds ''lat''), (''lon'', labels_of ex_ds ''lon'')]"
    and v: "\<And>a b. vals r [a, b] =
              apply_reducer Std
                (map (\<lambda>e. sub_fval (vals ?t [2, a, b, e])
                        (apply_reducer Mean
                           (map (\<lambda>e. vals ?t [2, a, b, e]) [0..<length (labels_of ex_ds ''ensemble'')])))
                   [0..<length (labels_of ex_ds ''ensemble'')])" by blast
  have "vals r [0, 0] = None"
    unfolding v std_of_errors_None_iff by (simp add: ex_t_mean)
  moreover have "in_bounds (axes r) [0, 0]"
    by (simp add: ax in_bounds_def labels_of_def ex_ds_def)
  ultimately show ?thesis using r by simp
qed

section \<open>The seasonal snowfall\<close>

lemma quarter_label:
  "\<exists>y m. bucket_label QS_Mar q = Date y m 1 \<and> (m = 3 \<or> m = 6 \<or> m = 9 \<or> m = 12)"
proof -
  have "(3 * q + 2) mod 12 = 2 \<or> (3 * q + 2) mod 12 = 5 \<or> (3 * q + 2) mod 12 = 8 \<or>
        (3 * q + 2) mod 12 = 11" by presburger
  then have "(3 * q + 2) mod 12 + 1 = 3 \<or> (3 * q + 2) mod 12 + 1 = 6 \<or>
             (3 * q + 2) mod 12 + 1 = 9 \<or> (3 * q + 2) mod 12 + 1 = 12" by linarith
  then show ?thesis unfolding bucket_label.simps by blast
qed



lemma map_of_index_of:
  "index_of d (map fst ax) = Some k \<Longrightarrow> map_of ax d = Some (snd (ax ! k))"
proof (induction ax arbitrary: k)
  case Nil
  then show ?case by simp
next
  case (Cons a ax)
  then show ?case by (cases k) (auto split: if_splits)
qed

lemma index_of_update_other:
  "index_of d (map fst ax) = Some e \<Longrightarrow> k \<noteq> e \<Longrightarrow> fst new \<noteq> d \<Longrightarrow>
   index_of d (map fst (ax[k := new])) = Some e"
proof (induction ax arbitrary: k e)
  case Nil
  then show ?case by simp
next
  case (Cons a ax)
  show ?case
  proof (cases k)
    case 0
    with Cons.prems show ?thesis by (auto split: if_splits)
  next
    case (Suc j)
    with Cons.prems Cons.IH[of _ j] show ?thesis by (auto split: if_splits)
  qed
qed

lemma index_of_update_labels:
  "index_of d (map fst ax) = Some e \<Longrightarrow>
   index_of d (map fst (ax[k := (fst (ax ! k), L)])) = Some e"
proof -
  assume a: "index_of d (map fst ax) = Some e"
  have "map fst (ax[k := (fst (ax ! k), L)]) = map fst ax"
    by (simp add: map_update) (metis list_update_id map_update)
  then show ?thesis using a by simp
qed

lemma resample_vals:
  assumes "resample d f r a = Inr res" "index_of d (dims a) = Some k"
    "dates (snd (axes a ! k)) = Some ts"
  shows "vals res = (\<lambda>idx.
            let ms = filter (\<lambda>j. map (bucket f) ts ! j =
                                  (if ts = [] then [] else [bucket f (hd ts)..bucket f (last ts)]) ! (idx ! k))
                            [0..<length ts]
            in if ms = [] then None
               else apply_reducer r (map (\<lambda>j. vals a (idx[k := j])) ms))"
proof -
  from resample_cases[OF assms(1)] assms(2,3) have
    "ts \<noteq> [] \<and> vals res = (\<lambda>idx.
                    let ms = filter (\<lambda>j. map (bucket f) ts ! j =
                                          [bucket f (hd ts)..bucket f (last ts)] ! (idx ! k))
                                    [0..<length ts]
                    in if ms = [] then None
                       else apply_reducer r (map (\<lambda>j. vals a (idx[k := j])) ms))"
    by auto
  then show ?thesis by simp
qed





lemma quarter_labels_form:
  "\<forall>l\<in>set (map (bucket_label QS_Mar) bins).
     \<exists>y mo. l = Date y mo 1 \<and> (mo = 3 \<or> mo = 6 \<or> mo = 9 \<or> mo = 12)"
  using quarter_label by auto





























section \<open>The dataset is read-only\<close>

lemma run_stmt_frame: "run_stmt c s = Inr s' \<Longrightarrow> x \<noteq> fst c \<Longrightarrow> s' x = s x"
  by (auto simp: run_stmt_def dest!: bindE_Inr)

lemma exec_frame:
  "(\<forall>c\<in>set cs. fst c \<in> W) \<Longrightarrow> x \<notin> W \<Longrightarrow> fst (exec cs s) x = s x"
proof (induction cs arbitrary: s)
  case Nil
  then show ?case by simp
next
  case (Cons c cs)
  show ?case
  proof (cases "run_stmt c s")
    case (Inl e)
    then show ?thesis by simp
  next
    case (Inr s')
    have "x \<noteq> fst c" using Cons.prems by auto
    from run_stmt_frame[OF Inr this] Cons.IH[of s'] Cons.prems Inr show ?thesis by simp
  qed
qed

lemma exec_reads:
  assumes "\<forall>c\<in>set cs. fst c \<in> V \<and> reads_only V (snd c)" and "\<forall>x\<in>V. s x = t x"
  shows "snd (exec cs s) = snd (exec cs t) \<and> (\<forall>x\<in>V. fst (exec cs s) x = fst (exec cs t) x)"
  using assms
proof (induction cs arbitrary: s t)
  case Nil
  then show ?case by simp
next
  case (Cons c cs)
  have eq: "snd c s = snd c t" using Cons.prems by (auto simp: reads_only_def)
  show ?case
  proof (cases "snd c s")
    case (Inl e)
    then show ?thesis using eq Cons.prems(2) by (simp add: run_stmt_def bindE_def)
  next
    case (Inr v)
    have ag: "\<forall>x\<in>V. (s(fst c \<mapsto> v)) x = (t(fst c \<mapsto> v)) x" using Cons.prems(2) by simp
    have rest: "\<forall>c\<in>set cs. fst c \<in> V \<and> reads_only V (snd c)" using Cons.prems(1) by simp
    have rs: "run_stmt c s = Inr (s(fst c \<mapsto> v))" "run_stmt c t = Inr (t(fst c \<mapsto> v))"
      using Inr eq by (simp_all add: run_stmt_def bindE_def)
    show ?thesis
      unfolding exec.simps rs sum.case
      by (rule Cons.IH[of "s(fst c \<mapsto> v)" "t(fst c \<mapsto> v)", OF rest ag])
  qed
qed

lemma exec_commute:
  assumes A: "\<forall>c\<in>set A. fst c \<in> WA \<and> reads_only VA (snd c)" and "WA \<subseteq> VA"
    and B: "\<forall>c\<in>set B. fst c \<in> WB \<and> reads_only VB (snd c)" and "WB \<subseteq> VB"
    and "VA \<inter> WB = {}" and "VB \<inter> WA = {}"
  shows "fst (exec B (fst (exec A s))) = fst (exec A (fst (exec B s))) \<and>
         snd (exec A s) = snd (exec A (fst (exec B s))) \<and>
         snd (exec B (fst (exec A s))) = snd (exec B s)"
proof -
  define s1 where "s1 = fst (exec A s)"
  define t1 where "t1 = fst (exec B s)"
  have fA: "\<And>u x. x \<notin> WA \<Longrightarrow> fst (exec A u) x = u x"
    using exec_frame[of A WA] A by blast
  have fB: "\<And>u x. x \<notin> WB \<Longrightarrow> fst (exec B u) x = u x"
    using exec_frame[of B WB] B by blast
  have A': "\<forall>c\<in>set A. fst c \<in> VA \<and> reads_only VA (snd c)" using A assms(2) by blast
  have B': "\<forall>c\<in>set B. fst c \<in> VB \<and> reads_only VB (snd c)" using B assms(4) by blast
  have agB: "\<forall>x\<in>VB. s1 x = s x" unfolding s1_def using fA assms(6) by blast
  have agA: "\<forall>x\<in>VA. t1 x = s x" unfolding t1_def using fB assms(5) by blast
  from exec_reads[OF B' agB] have
    eB: "snd (exec B s1) = snd (exec B s)"
    and vB: "\<forall>x\<in>VB. fst (exec B s1) x = fst (exec B s) x" by blast+
  from exec_reads[OF A' agA] have
    eA: "snd (exec A t1) = snd (exec A s)"
    and vA: "\<forall>x\<in>VA. fst (exec A t1) x = fst (exec A s) x" by blast+
  have "fst (exec B s1) = fst (exec A t1)"
  proof
    fix x
    show "fst (exec B s1) x = fst (exec A t1) x"
    proof (cases "x \<in> WB")
      case True
      then have "x \<in> VB" "x \<notin> WA" using assms(4,6) by auto
      then show ?thesis using vB fA[of x t1] by (simp add: t1_def)
    next
      case False
      note nB = this
      show ?thesis
      proof (cases "x \<in> WA")
        case True
        then have "x \<in> VA" using assms(2) by auto
        then show ?thesis using vA fB[OF nB, of s1] by (simp add: s1_def)
      next
        case False
        then show ?thesis using fA[OF False] fB[OF nB] by (simp add: s1_def t1_def)
      qed
    qed
  qed
  then show ?thesis using eA eB by (simp add: s1_def t1_def)
qed

lemma elevation_footprint:
  "\<forall>c\<in>set elevation_cells. fst c \<in> {''elevation''} \<and> reads_only {''ds'', ''elevation''} (snd c)"
  by (simp add: elevation_cells_def reads_only_def get_ds_def get_da_def)

lemma uncertainty_footprint:
  "\<forall>c\<in>set uncertainty_cells.
     fst c \<in> {''temp'', ''temp_ens_mean'', ''temp_errors'', ''temp_std_errors''} \<and>
     reads_only {''ds'', ''temp'', ''temp_ens_mean'', ''temp_errors'', ''temp_std_errors''} (snd c)"
  by (simp add: uncertainty_cells_def reads_only_def get_ds_def get_da_def)

lemma spread_footprint:
  "\<forall>c\<in>set spread_cells. fst c \<in> {''temp_mean'', ''spread''} \<and>
     reads_only {''ds'', ''temp_mean'', ''spread''} (snd c)"
  by (simp add: spread_cells_def reads_only_def get_ds_def get_da_def)

lemma snow_footprint:
  "\<forall>c\<in>set snow_cells. fst c \<in> {''da_snow'', ''seasonal_snow''} \<and>
     reads_only {''ds'', ''da_snow'', ''seasonal_snow''} (snd c)"
  by (simp add: snow_cells_def reads_only_def get_ds_def get_da_def)

lemma austin_footprint:
  "\<forall>c\<in>set austin_cells. fst c \<in> {''buf'', ''ds_tx'', ''pcp_ann_max'', ''pcp_ann_max_ts''} \<and>
     reads_only {''ds'', ''buf'', ''ds_tx'', ''pcp_ann_max'', ''pcp_ann_max_ts''} (snd c)"
  by (simp add: austin_cells_def reads_only_def get_ds_def get_da_def get_float_def)


lemma assigned_cells:
  "assigned elevation_cells = {''elevation''}"
  "assigned uncertainty_cells = {''temp'', ''temp_ens_mean'', ''temp_errors'', ''temp_std_errors''}"
  "assigned spread_cells = {''temp_mean'', ''spread''}"
  "assigned snow_cells = {''da_snow'', ''seasonal_snow''}"
  "assigned austin_cells = {''buf'', ''ds_tx'', ''pcp_ann_max'', ''pcp_ann_max_ts''}"
  by (auto simp: assigned_def elevation_cells_def uncertainty_cells_def spread_cells_def
        snow_cells_def austin_cells_def)

lemma analysis_footprint:
  assumes "A \<in> set analyses"
  shows "(\<forall>c\<in>set A. fst c \<in> assigned A \<and> reads_only (insert ''ds'' (assigned A)) (snd c)) \<and>
         ''ds'' \<notin> assigned A"
proof -
  from assms consider "A = elevation_cells" | "A = uncertainty_cells" | "A = spread_cells"
    | "A = snow_cells" | "A = austin_cells" by (auto simp: analyses_def)
  then show ?thesis
  proof cases
    case 1
    then show ?thesis using elevation_footprint by (simp add: assigned_cells)
  next
    case 2
    then show ?thesis using uncertainty_footprint by (simp add: assigned_cells)
  next
    case 3
    then show ?thesis using spread_footprint by (simp add: assigned_cells)
  next
    case 4
    then show ?thesis using snow_footprint by (simp add: assigned_cells)
  next
    case 5
    then show ?thesis using austin_footprint by (simp add: assigned_cells)
  qed
qed

lemma analyses_disjoint:
  assumes "A \<in> set analyses" "B \<in> set analyses" "A \<noteq> B"
  shows "assigned A \<inter> assigned B = {}"
proof -
  have a: "A = elevation_cells \<or> A = uncertainty_cells \<or> A = spread_cells \<or> A = snow_cells \<or>
           A = austin_cells" using assms(1) by (auto simp: analyses_def)
  have b: "B = elevation_cells \<or> B = uncertainty_cells \<or> B = spread_cells \<or> B = snow_cells \<or>
           B = austin_cells" using assms(2) by (auto simp: analyses_def)
  show ?thesis using a b assms(3)
    by (elim disjE) (simp_all add: assigned_cells)
qed

lemma notebook_assigned: "''ds'' \<notin> assigned notebook"
  by (simp add: assigned_def notebook_def analyses_def elevation_cells_def uncertainty_cells_def
        spread_cells_def snow_cells_def austin_cells_def)

text \<open>
  C8. Once loaded, the dataset bound to \<open>ds\<close> is never changed: after any sequence of
  statements of the notebook, in any order and with any repetition, whether they return or
  raise, \<open>ds\<close> is bound to the same dataset; every statement binds only a name of its
  own analysis. Two different analyses run in either order leave the same session and
  raise the same errors.
\<close>

theorem dataset_never_mutated:
  "(\<forall>cs s. set cs \<subseteq> set notebook \<longrightarrow> fst (exec cs s) ''ds'' = s ''ds'') \<and>
   (\<forall>A B s. A \<in> set analyses \<and> B \<in> set analyses \<and> A \<noteq> B \<longrightarrow>
      fst (exec B (fst (exec A s))) = fst (exec A (fst (exec B s))) \<and>
      snd (exec A s) = snd (exec A (fst (exec B s))) \<and>
      snd (exec B (fst (exec A s))) = snd (exec B s))"
proof -
  have frame: "\<forall>cs s. set cs \<subseteq> set notebook \<longrightarrow> fst (exec cs s) ''ds'' = s ''ds''"
  proof (intro allI impI)
    fix cs :: "stmt list" and s :: session
    assume "set cs \<subseteq> set notebook"
    then have "\<forall>c\<in>set cs. fst c \<in> assigned notebook" by (auto simp: assigned_def)
    from exec_frame[OF this notebook_assigned] show "fst (exec cs s) ''ds'' = s ''ds''" .
  qed
  have order: "\<forall>A B s. A \<in> set analyses \<and> B \<in> set analyses \<and> A \<noteq> B \<longrightarrow>
      fst (exec B (fst (exec A s))) = fst (exec A (fst (exec B s))) \<and>
      snd (exec A s) = snd (exec A (fst (exec B s))) \<and>
      snd (exec B (fst (exec A s))) = snd (exec B s)"
  proof (intro allI impI)
    fix A B :: "stmt list" and s :: session
    assume h: "A \<in> set analyses \<and> B \<in> set analyses \<and> A \<noteq> B"
    have fa: "\<forall>c\<in>set A. fst c \<in> assigned A \<and> reads_only (insert ''ds'' (assigned A)) (snd c)"
      and da: "''ds'' \<notin> assigned A" using analysis_footprint[of A] h by blast+
    have fb: "\<forall>c\<in>set B. fst c \<in> assigned B \<and> reads_only (insert ''ds'' (assigned B)) (snd c)"
      and db: "''ds'' \<notin> assigned B" using analysis_footprint[of B] h by blast+
    have dj: "assigned A \<inter> assigned B = {}" using analyses_disjoint[of A B] h by blast
    have 1: "insert ''ds'' (assigned A) \<inter> assigned B = {}" using dj db by auto
    have 2: "insert ''ds'' (assigned B) \<inter> assigned A = {}" using dj da by auto
    show "fst (exec B (fst (exec A s))) = fst (exec A (fst (exec B s))) \<and>
        snd (exec A s) = snd (exec A (fst (exec B s))) \<and>
        snd (exec B (fst (exec A s))) = snd (exec B s)"
      by (rule exec_commute[OF fa _ fb _ 1 2]) auto
  qed
  show ?thesis using frame order by blast
qed


theorem dataset_never_mutated_witness:
  "set elevation_cells \<subseteq> set notebook \<and>
   fst (exec elevation_cells ex_session) ''ds'' = Some (VDataset ex_ds) \<and>
   elevation_cells \<in> set analyses \<and> snow_cells \<in> set analyses \<and>
   elevation_cells \<noteq> snow_cells \<and>
   fst (exec snow_cells (fst (exec elevation_cells ex_session))) =
     fst (exec elevation_cells (fst (exec snow_cells ex_session)))"
proof -
  have 1: "set elevation_cells \<subseteq> set notebook" by (auto simp: notebook_def analyses_def)
  have 2: "elevation_cells \<in> set analyses \<and> snow_cells \<in> set analyses \<and>
           elevation_cells \<noteq> snow_cells"
    by (simp add: analyses_def) (simp add: elevation_cells_def snow_cells_def)
  have 3: "ex_session ''ds'' = Some (VDataset ex_ds)" by (simp add: ex_session_def)
  from dataset_never_mutated 1 have "fst (exec elevation_cells ex_session) ''ds'' = ex_session ''ds''"
    by blast
  moreover from dataset_never_mutated 2 have
    "fst (exec snow_cells (fst (exec elevation_cells ex_session))) =
     fst (exec elevation_cells (fst (exec snow_cells ex_session)))" by blast
  ultimately show ?thesis using 1 2 3 by simp
qed

text \<open>
  The statements of each analysis compute the function of the dataset defined for it
  above: they raise exactly when it fails, with the same error, and bind its result.
\<close>

lemma elevation_cells_compute:
  assumes "s ''ds'' = Some (VDataset ds)"
  shows "snd (exec elevation_cells s) = (case elevation_field ds of Inl e \<Rightarrow> Some e | Inr r \<Rightarrow> None)"
    and "elevation_field ds = Inr r \<Longrightarrow> fst (exec elevation_cells s) ''elevation'' = Some (VArray r)"
  by (auto simp: elevation_cells_def run_stmt_def get_ds_def get_da_def arr_def bindE_def
        elevation_field_def assms split: sum.splits if_splits)

lemma uncertainty_cells_compute:
  assumes "s ''ds'' = Some (VDataset ds)"
  shows "snd (exec uncertainty_cells s) = (case temp_std_errors ds of Inl e \<Rightarrow> Some e | Inr r \<Rightarrow> None)"
    and "temp_std_errors ds = Inr r \<Longrightarrow>
         fst (exec uncertainty_cells s) ''temp_std_errors'' = Some (VArray r)"
  by (auto simp: uncertainty_cells_def run_stmt_def get_ds_def get_da_def arr_def bindE_def
        temp_std_errors_def temp_errors_def temp_ens_mean_def temp_def assms split: sum.splits)

lemma spread_cells_compute:
  assumes "s ''ds'' = Some (VDataset ds)"
  shows "snd (exec spread_cells s) = (case spread ds of Inl e \<Rightarrow> Some e | Inr r \<Rightarrow> None)"
    and "spread ds = Inr r \<Longrightarrow> fst (exec spread_cells s) ''spread'' = Some (VArray r)"
  by (auto simp: spread_cells_def run_stmt_def get_ds_def get_da_def arr_def bindE_def
        spread_def temp_mean_def persist_def assms split: sum.splits)

lemma snow_cells_compute:
  assumes "s ''ds'' = Some (VDataset ds)"
  shows "snd (exec snow_cells s) = (case seasonal_snow ds of Inl e \<Rightarrow> Some e | Inr r \<Rightarrow> None)"
    and "seasonal_snow ds = Inr r \<Longrightarrow> fst (exec snow_cells s) ''seasonal_snow'' = Some (VArray r)"
  by (auto simp: snow_cells_def run_stmt_def get_ds_def get_da_def arr_def bindE_def
        seasonal_snow_def grouped_snow_def da_snow_def snow_mask_def assms split: sum.splits)

lemma austin_cells_compute:
  assumes "s ''ds'' = Some (VDataset ds)"
  shows "snd (exec austin_cells s) = (case pcp_ann_max_ts ds of Inl e \<Rightarrow> Some e | Inr r \<Rightarrow> None)"
    and "pcp_ann_max_ts ds = Inr r \<Longrightarrow>
         fst (exec austin_cells s) ''pcp_ann_max_ts'' = Some (VArray r)"
  by (auto simp: austin_cells_def run_stmt_def get_ds_def get_da_def get_float_def arr_def bindE_def
        pcp_ann_max_ts_def pcp_ann_max_def ds_tx_def buf_def assms split: sum.splits)

section \<open>The mean of the deviations\<close>

lemma present_sub_mean:
  "present (map (\<lambda>e. sub_fval (X e) (Some m)) es) = map (\<lambda>x. x - m) (present (map X es))"
  by (induction es) (auto simp: present_def sub_fval_def split: option.splits)

lemma avg_deviations: "xs \<noteq> [] \<Longrightarrow> avg (map (\<lambda>x. x - avg xs) xs) = 0"
proof -
  assume ne: "xs \<noteq> []"
  have "sum_list (map (\<lambda>x. x - c) xs) = sum_list xs - real (length xs) * c" for c
    by (induction xs) (auto simp: algebra_simps)
  then have "sum_list (map (\<lambda>x. x - avg xs) xs) = sum_list xs - real (length xs) * avg xs" .
  also have "\<dots> = 0" using ne by (simp add: avg_def)
  finally show ?thesis by (simp add: avg_def)
qed

text \<open>
  In exact arithmetic the mean over the ensemble of the deviations from the ensemble mean is
  0 wherever a member is present, and missing where no member is.
\<close>

lemma mean_of_errors_exact:
  "apply_reducer Mean
     (map (\<lambda>e. sub_fval (X e) (apply_reducer Mean (map X es))) es) =
   (if \<forall>e\<in>set es. X e = None then None else Some 0)"
proof (cases "present (map X es) = []")
  case True
  then have a: "\<forall>e\<in>set es. X e = None" by (simp add: present_empty_iff)
  then have "present (map (\<lambda>e. sub_fval (X e) None) es) = []"
    by (simp add: present_empty_iff sub_fval_def)
  then show ?thesis using True a by (simp add: Let_def)
next
  case False
  then have a: "\<not> (\<forall>e\<in>set es. X e = None)" by (simp add: present_empty_iff)
  have m: "apply_reducer Mean (map X es) = Some (avg (present (map X es)))"
    using False by (simp add: Let_def)
  show ?thesis
    unfolding m using False a
    by (simp add: Let_def present_sub_mean avg_deviations)
qed

lemma expand_none:
  "\<forall>s\<in>set spec. \<not> fst s \<Longrightarrow> length idx = length spec \<Longrightarrow> expand spec idx = [idx]"
proof (induction spec arbitrary: idx)
  case Nil
  then show ?case by simp
next
  case (Cons s spec)
  obtain red n where s: "s = (red, n)" by (cases s)
  from Cons.prems obtain i rest where idx: "idx = i # rest" by (cases idx) auto
  show ?case using Cons s idx by simp
qed

lemma expand_single:
  assumes "distinct (map fst ax)" "index_of d (map fst ax) = Some k" "Suc (length idx) = length ax"
  shows "expand (map (\<lambda>a. (fst a \<in> set [d], length (snd a))) ax) idx =
           map (\<lambda>e. insert_at k e idx) [0..<length (snd (ax ! k))]"
  using assms
proof (induction ax arbitrary: k idx)
  case Nil
  then show ?case by simp
next
  case (Cons a ax)
  show ?case
  proof (cases "fst a = d")
    case True
    then have k: "k = 0" using Cons.prems(2) by simp
    have "\<forall>s\<in>set (map (\<lambda>a. (fst a \<in> set [d], length (snd a))) ax). \<not> fst s"
      using Cons.prems(1) True by (auto simp: image_iff)
    moreover have "length idx = length (map (\<lambda>a. (fst a \<in> set [d], length (snd a))) ax)"
      using Cons.prems(3) by simp
    ultimately have "expand (map (\<lambda>a. (fst a \<in> set [d], length (snd a))) ax) idx = [idx]"
      by (rule expand_none)
    then show ?thesis using True k by (simp add: insert_at_def map_concat comp_def)
  next
    case False
    then obtain j where j: "index_of d (map fst ax) = Some j" "k = Suc j"
      using Cons.prems(2) by auto
    have "ax \<noteq> []" using j(1) by auto
    then obtain i rest where idx: "idx = i # rest" using Cons.prems(3) by (cases idx) auto
    have "Suc (length rest) = length ax" using Cons.prems(3) idx by simp
    from Cons.IH[OF _ j(1) this] Cons.prems(1)
    have "expand (map (\<lambda>a. (fst a \<in> set [d], length (snd a))) ax) rest =
            map (\<lambda>e. insert_at j e rest) [0..<length (snd (ax ! j))]" by simp
    then show ?thesis using False idx j(2) by (simp add: insert_at_def comp_def)
  qed
qed

lemma remove_at_map: "remove_at k (map f xs) = map f (remove_at k xs)"
  by (simp add: remove_at_def take_map drop_map)

lemma remove_insert_at: "k \<le> length xs \<Longrightarrow> remove_at k (insert_at k x xs) = xs"
  by (simp add: remove_at_def insert_at_def)

lemma length_insert_at: "length (insert_at k x xs) = Suc (length xs)"
  by (simp add: insert_at_def)


lemma out_axes_sub:
  assumes "distinct (map fst ax)" "set bx \<subseteq> set ax"
  shows "out_axes ax bx = ax"
proof -
  have "map (\<lambda>(d, ls). (d, case map_of bx d of None \<Rightarrow> ls | Some lb \<Rightarrow> joined ls lb)) ax = map (\<lambda>x. x) ax"
  proof (rule map_cong[OF refl])
    fix x assume x: "x \<in> set ax"
    obtain d' ls where xd: "x = (d', ls)" by (cases x)
    have "(case map_of bx d' of None \<Rightarrow> ls | Some lb \<Rightarrow> joined ls lb) = ls"
    proof (cases "map_of bx d'")
      case None
      then show ?thesis by simp
    next
      case (Some lb)
      then have "(d', lb) \<in> set ax" using map_of_SomeD[OF Some] assms(2) by blast
      then have "lb = ls" using x xd assms(1) by (metis eq_key_imp_eq_value)
      then show ?thesis using Some by (simp add: joined_def)
    qed
    then show "(case x of (d, ls) \<Rightarrow> (d, case map_of bx d of None \<Rightarrow> ls | Some lb \<Rightarrow> joined ls lb)) = x"
      unfolding xd by simp
  qed
  moreover have "filter (\<lambda>(d, ls). d \<notin> set (map fst ax)) bx = []"
    using assms(2) by (force simp: filter_empty_conv)
  ultimately show ?thesis by (simp add: out_axes_def)
qed

lemma pull_removed:
  assumes "distinct (map fst ax)" "length idx = length ax"
  shows "pull (remove_at k ax) ax idx = remove_at k idx"
proof -
  have "pull (remove_at k ax) ax idx = remove_at k (pull ax ax idx)"
    by (simp add: pull_def remove_at_map)
  then show ?thesis using pull_self[OF assms] by simp
qed

lemma set_remove_at: "set (remove_at k xs) \<subseteq> set xs"
  by (auto simp: remove_at_def dest: in_set_takeD in_set_dropD)

lemma mean_of_errors_steps:
  assumes dist: "distinct (dims a)" and k: "index_of ''ensemble'' (dims a) = Some k"
  shows "\<exists>r. mean_of_errors a = Inr r \<and> axes r = remove_at k (axes a) \<and>
           (\<forall>idx. Suc (length idx) = length (axes a) \<longrightarrow>
              vals r idx =
                (if \<forall>e<length (snd (axes a ! k)). vals a (insert_at k e idx) = None
                 then None else Some 0))"
proof -
  let ?spec = "map (\<lambda>ax. (fst ax = ''ensemble'', length (snd ax))) (axes a)"
  let ?n = "length (snd (axes a ! k))"
  have d: "distinct (map fst (axes a))" using dist by (simp add: dims_def)
  have k': "index_of ''ensemble'' (map fst (axes a)) = Some k" using k by (simp add: dims_def)
  have kl: "k < length (axes a)" using index_of_Some[OF k'] by simp
  have isin: "''ensemble'' \<in> set (dims a)" using index_of_Some[OF k] by (metis nth_mem)
  have rem: "filter (\<lambda>ax. fst ax \<noteq> ''ensemble'') (axes a) = remove_at k (axes a)"
    using remove_at_filter[OF d k'] by simp
  define m where "m = \<lparr>axes = remove_at k (axes a),
      vals = (\<lambda>idx. apply_reducer Mean (map (vals a) (expand ?spec idx))), attrs = []\<rparr>"
  have m: "reduce Mean [''ensemble''] a = Inr m"
    using isin by (simp add: reduce_def rem m_def)
  define E where "E = binop sub_fval a m"
  have axE: "axes E = axes a"
    using out_axes_sub[OF d set_remove_at[of k "axes a"]] by (simp add: E_def binop_def Let_def m_def)
  have vE: "\<And>j. length j = length (axes a) \<Longrightarrow>
              vals E j = sub_fval (vals a j) (vals m (remove_at k j))"
    using out_axes_sub[OF d set_remove_at[of k "axes a"]] pull_self[OF d] pull_removed[OF d]
    by (simp add: E_def binop_def Let_def m_def)
  define r where "r = \<lparr>axes = remove_at k (axes a),
      vals = (\<lambda>idx. apply_reducer Mean (map (vals E) (expand ?spec idx))), attrs = []\<rparr>"
  have "reduce Mean [''ensemble''] E = Inr r"
    using isin by (simp add: reduce_def dims_def axE rem r_def)
  then have r: "mean_of_errors a = Inr r" by (simp add: mean_of_errors_def m bindE_def E_def)
  have v: "\<forall>idx. Suc (length idx) = length (axes a) \<longrightarrow>
              vals r idx =
                (if \<forall>e<?n. vals a (insert_at k e idx) = None then None else Some 0)"
  proof (intro allI impI)
    fix idx :: "nat list" assume l: "Suc (length idx) = length (axes a)"
    have ex: "expand ?spec idx = map (\<lambda>e. insert_at k e idx) [0..<?n]"
      using expand_single[OF d k' l] by simp
    have kle: "k \<le> length idx" using kl l by simp
    have vm: "vals m idx = apply_reducer Mean (map (\<lambda>e. vals a (insert_at k e idx)) [0..<?n])"
      by (simp add: m_def ex comp_def del: apply_reducer.simps)
    have "\<And>e. vals E (insert_at k e idx) =
              sub_fval (vals a (insert_at k e idx))
                (apply_reducer Mean (map (\<lambda>e. vals a (insert_at k e idx)) [0..<?n]))"
      using vE[of "insert_at k _ idx"] l
      by (simp add: length_insert_at remove_insert_at[OF kle] vm del: apply_reducer.simps)
    then have "vals r idx = apply_reducer Mean
        (map (\<lambda>e. sub_fval (vals a (insert_at k e idx))
                (apply_reducer Mean (map (\<lambda>e. vals a (insert_at k e idx)) [0..<?n]))) [0..<?n])"
      by (simp add: r_def ex comp_def del: apply_reducer.simps)
    then show "vals r idx =
                (if \<forall>e<?n. vals a (insert_at k e idx) = None then None else Some 0)"
      unfolding mean_of_errors_exact by simp
  qed
  show ?thesis using r v by (auto simp: r_def)
qed


lemma temp_errors_reaggregated:
  "bindE (temp_errors ds) (reduce Mean [''ensemble'']) = bindE (temp ds) mean_of_errors"
  by (simp add: temp_errors_def temp_ens_mean_def mean_of_errors_def bindE_def split: sum.splits)

text \<open>
  C5 as amended. For every array with an ensemble dimension (and dimension names that are
  all different), subtracting its mean over the ensemble from every member and aggregating
  the differences by the mean over the ensemble returns an array over the remaining
  dimensions whose value is 0, in exact arithmetic, at every coordinate where at least one
  member is present, and is missing at every coordinate where all members are missing.
\<close>

theorem mean_of_errors_zero:
  assumes "distinct (dims a)" and "index_of ''ensemble'' (dims a) = Some k"
  shows "\<exists>r. mean_of_errors a = Inr r \<and>
           dims r = filter (\<lambda>d. d \<noteq> ''ensemble'') (dims a) \<and>
           (\<forall>idx. in_bounds (axes r) idx \<longrightarrow>
              vals r idx =
                (if \<forall>e<length (snd (axes a ! k)). vals a (insert_at k e idx) = None
                 then None else Some 0))"
proof -
  from mean_of_errors_steps[OF assms] obtain r where
    r: "mean_of_errors a = Inr r" and ax: "axes r = remove_at k (axes a)"
    and v: "\<forall>idx. Suc (length idx) = length (axes a) \<longrightarrow>
              vals r idx =
                (if \<forall>e<length (snd (axes a ! k)). vals a (insert_at k e idx) = None
                 then None else Some 0)" by blast
  have d: "distinct (map fst (axes a))" using assms(1) by (simp add: dims_def)
  have k': "index_of ''ensemble'' (map fst (axes a)) = Some k" using assms(2) by (simp add: dims_def)
  have kl: "k < length (axes a)" using index_of_Some[OF k'] by simp
  have "axes r = filter (\<lambda>ax. fst ax \<noteq> ''ensemble'') (axes a)"
    unfolding ax by (rule remove_at_filter[OF d k'])
  then have dr: "dims r = filter (\<lambda>d. d \<noteq> ''ensemble'') (dims a)"
    by (simp add: dims_def filter_map comp_def)
  have "\<forall>idx. in_bounds (axes r) idx \<longrightarrow>
              vals r idx =
                (if \<forall>e<length (snd (axes a ! k)). vals a (insert_at k e idx) = None
                 then None else Some 0)"
  proof (intro allI impI)
    fix idx :: "nat list" assume "in_bounds (axes r) idx"
    then have "length idx = length (remove_at k (axes a))" using in_bounds_length ax by metis
    then have "Suc (length idx) = length (axes a)" using kl by (simp add: remove_at_def)
    with v show "vals r idx =
                (if \<forall>e<length (snd (axes a ! k)). vals a (insert_at k e idx) = None
                 then None else Some 0)" by blast
  qed
  with r dr show ?thesis by blast
qed

lemma ex_temp:
  "temp ex_ds =
     Inr \<lparr>axes = [(''lat'', [Num 30.25]), (''lon'', [Num (- 98.5), Num (- 97.75)]),
                  (''ensemble'', [Num 0, Num 1])],
           vals = (\<lambda>idx. if idx ! 1 = 0 then None
                           else if idx ! 2 = 0 then Some (- 2) else Some 3),
           attrs = []\<rparr>"
  by (simp add: temp_def ex_t_mean bindE_def sel_label_def dims_def positions_of_def
        upt_rec_numeral remove_at_def insert_at_def eval_nat_numeral cong del: if_weak_cong)

theorem mean_of_errors_zero_witness:
  "\<exists>r. mean_of_errors (projr (temp ex_ds)) = Inr r \<and>
     distinct (dims (projr (temp ex_ds))) \<and>
     index_of ''ensemble'' (dims (projr (temp ex_ds))) = Some 2 \<and>
     dims r = [''lat'', ''lon''] \<and>
     in_bounds (axes r) [0, 0] \<and> in_bounds (axes r) [0, 1] \<and>
     vals r [0, 0] = None \<and> vals r [0, 1] = Some 0"
proof -
  let ?a = "projr (temp ex_ds)"
  have ax: "axes ?a = [(''lat'', [Num 30.25]), (''lon'', [Num (- 98.5), Num (- 97.75)]),
                  (''ensemble'', [Num 0, Num 1])]" by (simp add: ex_temp)
  have va: "vals ?a = (\<lambda>idx. if idx ! 1 = 0 then None
                           else if idx ! 2 = 0 then Some (- 2) else Some 3)"
    by (simp add: ex_temp)
  have d: "distinct (dims ?a)" by (simp add: dims_def ax)
  have k: "index_of ''ensemble'' (dims ?a) = Some 2" by (simp add: dims_def ax)
  from mean_of_errors_zero[OF d k] obtain r where
    r: "mean_of_errors ?a = Inr r"
    and dr: "dims r = filter (\<lambda>d. d \<noteq> ''ensemble'') (dims ?a)"
    and v: "\<forall>idx. in_bounds (axes r) idx \<longrightarrow>
              vals r idx =
                (if \<forall>e<length (snd (axes ?a ! 2)). vals ?a (insert_at 2 e idx) = None
                 then None else Some 0)" by blast
  from mean_of_errors_steps[OF d k] r have
    axr: "axes r = [(''lat'', [Num 30.25]), (''lon'', [Num (- 98.5), Num (- 97.75)])]"
    by (auto simp: ax remove_at_def)
  have b0: "in_bounds (axes r) [0, 0]" and b1: "in_bounds (axes r) [0, 1]"
    by (simp_all add: axr in_bounds_def)
  have n0: "vals r [0, 0] = None"
    using v[rule_format, OF b0] by (simp add: va insert_at_def)
  have "vals ?a (insert_at 2 0 [0, 1]) \<noteq> None" by (simp add: va insert_at_def)
  then have "\<not> (\<forall>e<length (snd (axes ?a ! 2)). vals ?a (insert_at 2 e [0, 1]) = None)"
    by (intro notI) (simp add: ax)
  then have n1: "vals r [0, 1] = Some 0" using v[rule_format, OF b1] by simp
  show ?thesis using r d k dr b0 b1 n0 n1 by (simp add: dims_def ax)
qed

text \<open>
  C5 as stated fails where every member is missing: the mean of the errors is missing
  there, not zero.
\<close>

theorem mean_of_errors_missing_counterexample:
  "\<not> isl (mean_of_errors (projr (temp ex_ds))) \<and>
   in_bounds (axes (projr (mean_of_errors (projr (temp ex_ds))))) [0, 0] \<and>
   vals (projr (mean_of_errors (projr (temp ex_ds)))) [0, 0] = None"
proof -
  let ?a = "projr (temp ex_ds)"
  have ax: "axes ?a = [(''lat'', [Num 30.25]), (''lon'', [Num (- 98.5), Num (- 97.75)]),
                  (''ensemble'', [Num 0, Num 1])]" by (simp add: ex_temp)
  have va: "vals ?a = (\<lambda>idx. if idx ! 1 = 0 then None
                           else if idx ! 2 = 0 then Some (- 2) else Some 3)"
    by (simp add: ex_temp)
  have d: "distinct (dims ?a)" by (simp add: dims_def ax)
  have k: "index_of ''ensemble'' (dims ?a) = Some 2" by (simp add: dims_def ax)
  from mean_of_errors_steps[OF d k] obtain r where
    r: "mean_of_errors ?a = Inr r" and axr: "axes r = remove_at 2 (axes ?a)"
    and v: "\<forall>idx. Suc (length idx) = length (axes ?a) \<longrightarrow>
              vals r idx =
                (if \<forall>e<length (snd (axes ?a ! 2)). vals ?a (insert_at 2 e idx) = None
                 then None else Some 0)" by blast
  have "Suc (length [0::nat, 0]) = length (axes ?a)" by (simp add: ax)
  from v[rule_format, OF this] have "vals r [0, 0] = None"
    by (simp add: va insert_at_def)
  moreover have "in_bounds (axes r) [0, 0]" by (simp add: axr ax remove_at_def in_bounds_def)
  ultimately show ?thesis using r by simp
qed

end
